theory Spec2Isabelle
  imports Main "HOL-Library.Sublist"
begin

section \<open>Text\<close>

text \<open>
  A JavaScript string is modelled as a \<^typ>\<open>string\<close> holding its UTF-8 bytes. The
  characters the program looks for (brackets, the backquote, the letters of \<open>json\<close>) are
  ASCII, and an ASCII byte never occurs inside the encoding of another character, so
  searching, slicing and replacing on bytes agree with the same operations on code units for
  every well-formed text. White space is the set that \<open>String.prototype.trim\<close> and the
  regular expression class \<open>\s\<close> share: TAB, LF, VT, FF, CR, SP, U+00A0, U+1680,
  U+2000 to U+200A, U+2028, U+2029, U+202F, U+205F, U+3000 and U+FEFF, each given here by
  its encoding.
\<close>

definition ws_tokens :: "string list" where
  "ws_tokens =
     [[CHR 0x09], [CHR 0x0A], [CHR 0x0B], [CHR 0x0C], [CHR 0x0D], [CHR 0x20],
      [CHR 0xC2, CHR 0xA0],
      [CHR 0xE1, CHR 0x9A, CHR 0x80],
      [CHR 0xE2, CHR 0x80, CHR 0x80], [CHR 0xE2, CHR 0x80, CHR 0x81],
      [CHR 0xE2, CHR 0x80, CHR 0x82], [CHR 0xE2, CHR 0x80, CHR 0x83],
      [CHR 0xE2, CHR 0x80, CHR 0x84], [CHR 0xE2, CHR 0x80, CHR 0x85],
      [CHR 0xE2, CHR 0x80, CHR 0x86], [CHR 0xE2, CHR 0x80, CHR 0x87],
      [CHR 0xE2, CHR 0x80, CHR 0x88], [CHR 0xE2, CHR 0x80, CHR 0x89],
      [CHR 0xE2, CHR 0x80, CHR 0x8A],
      [CHR 0xE2, CHR 0x80, CHR 0xA8], [CHR 0xE2, CHR 0x80, CHR 0xA9],
      [CHR 0xE2, CHR 0x80, CHR 0xAF],
      [CHR 0xE2, CHR 0x81, CHR 0x9F],
      [CHR 0xE3, CHR 0x80, CHR 0x80],
      [CHR 0xEF, CHR 0xBB, CHR 0xBF]]"

text \<open>A character that is part of no white-space encoding.\<close>

definition no_ws_byte :: "char \<Rightarrow> bool" where
  "no_ws_byte c = list_all (\<lambda>t. c \<notin> set t) ws_tokens"

text \<open>The number of bytes of the white-space character a text starts with, 0 when it
  starts with none.\<close>

definition ws_len :: "string \<Rightarrow> nat" where
  "ws_len s = (case find (\<lambda>t. prefix t s) ws_tokens of None \<Rightarrow> 0 | Some t \<Rightarrow> length t)"

text \<open>The same for the white-space character a text ends with.\<close>

definition ws_len_end :: "string \<Rightarrow> nat" where
  "ws_len_end s = (case find (\<lambda>t. prefix (rev t) (rev s)) ws_tokens of None \<Rightarrow> 0 | Some t \<Rightarrow> length t)"

lemma ws_len_le: "ws_len s \<le> length s"
  by (auto simp: ws_len_def find_Some_iff prefix_length_le split: option.splits)

lemma ws_len_end_le: "ws_len_end s \<le> length s"
proof (cases "find (\<lambda>t. prefix (rev t) (rev s)) ws_tokens")
  case None
  then show ?thesis by (simp add: ws_len_end_def)
next
  case (Some t)
  then have "prefix (rev t) (rev s)" by (auto simp: find_Some_iff)
  then have "length (rev t) \<le> length (rev s)" by (rule prefix_length_le)
  with Some show ?thesis by (simp add: ws_len_end_def)
qed

text \<open>\<open>\s*\<close> at the head of a text: the longest run of white space is dropped.\<close>

function skip_ws :: "string \<Rightarrow> string" where
  "skip_ws s = (if ws_len s = 0 then s else skip_ws (drop (ws_len s) s))"
  by pat_completeness auto
termination
proof (relation "measure length")
  show "wf (measure length)" by simp
next
  fix s :: string
  assume "ws_len s \<noteq> 0"
  moreover have "ws_len s \<le> length s" by (rule ws_len_le)
  ultimately show "(drop (ws_len s) s, s) \<in> measure length" by simp
qed

function skip_ws_end :: "string \<Rightarrow> string" where
  "skip_ws_end s =
     (if ws_len_end s = 0 then s else skip_ws_end (take (length s - ws_len_end s) s))"
  by pat_completeness auto
termination
proof (relation "measure length")
  show "wf (measure length)" by simp
next
  fix s :: string
  assume "ws_len_end s \<noteq> 0"
  moreover have "ws_len_end s \<le> length s" by (rule ws_len_end_le)
  ultimately show "(take (length s - ws_len_end s) s, s) \<in> measure length" by simp
qed

declare skip_ws.simps [simp del] skip_ws_end.simps [simp del]

lemma skip_ws_length: "length (skip_ws s) \<le> length s"
proof (induction s rule: skip_ws.induct)
  case (1 s)
  show ?case
  proof (cases "ws_len s = 0")
    case True
    then show ?thesis by (simp add: skip_ws.simps)
  next
    case False
    have "skip_ws s = skip_ws (drop (ws_len s) s)"
      using False by (subst skip_ws.simps) simp
    moreover have "length (skip_ws (drop (ws_len s) s)) \<le> length (drop (ws_len s) s)"
      using False by (rule "1.IH")
    ultimately show ?thesis by simp
  qed
qed

text \<open>\<open>text.trim()\<close>\<close>

definition trim :: "string \<Rightarrow> string" where
  "trim s = skip_ws_end (skip_ws s)"

text \<open>
  \<open>s.replace(/m\s*/g, "")\<close> for a literal, non-empty marker \<open>m\<close>: the text is scanned
  from the left; where the marker stands, it and the white space after it are removed and the
  scan goes on behind them; elsewhere one byte is kept.
\<close>

function remove_marker :: "string \<Rightarrow> string \<Rightarrow> string" where
  "remove_marker m s =
     (if m = [] \<or> s = [] then s
      else if prefix m s then remove_marker m (skip_ws (drop (length m) s))
      else hd s # remove_marker m (tl s))"
  by pat_completeness auto
termination
proof (relation "measure (\<lambda>(m, s). length s)")
  show "wf (measure (\<lambda>(m, s). length s))" by simp
next
  fix m s :: string
  assume "\<not> (m = [] \<or> s = [])" and "prefix m s"
  then have "length (drop (length m) s) < length s" by simp
  moreover have "length (skip_ws (drop (length m) s)) \<le> length (drop (length m) s)"
    by (rule skip_ws_length)
  ultimately show "((m, skip_ws (drop (length m) s)), (m, s)) \<in> measure (\<lambda>(m, s). length s)"
    by simp
next
  fix m s :: string
  assume "\<not> (m = [] \<or> s = [])"
  then show "((m, tl s), (m, s)) \<in> measure (\<lambda>(m, s). length s)" by simp
qed

declare remove_marker.simps [simp del]

text \<open>\<open>cleaned.replace(/```json\s*/g, "").replace(/```\s*/g, "")\<close>\<close>

definition strip_fences :: "string \<Rightarrow> string" where
  "strip_fences s = remove_marker ''```'' (remove_marker ''```json'' s)"

text \<open>\<open>s.indexOf(c)\<close> and \<open>s.lastIndexOf(c)\<close> for a one-character \<open>c\<close>; \<open>None\<close> is
  the result -1.\<close>

fun indexOf :: "string \<Rightarrow> char \<Rightarrow> nat option" where
  "indexOf [] c = None"
| "indexOf (x # xs) c = (if x = c then Some 0 else map_option Suc (indexOf xs c))"

fun lastIndexOf :: "string \<Rightarrow> char \<Rightarrow> nat option" where
  "lastIndexOf [] c = None"
| "lastIndexOf (x # xs) c =
     (case lastIndexOf xs c of
        Some i \<Rightarrow> Some (Suc i)
      | None \<Rightarrow> if x = c then Some 0 else None)"

text \<open>\<open>s.substring(a, b)\<close> for \<open>a \<le> b\<close>\<close>

definition substring :: "string \<Rightarrow> nat \<Rightarrow> nat \<Rightarrow> string" where
  "substring s a b = take (b - a) (drop a s)"

text \<open>
  Lines 87 to 92: the text between the first \<open>[\<close> and the last \<open>]\<close>, when both are
  there and in this order; the text unchanged otherwise.
\<close>

definition slice_brackets :: "string \<Rightarrow> string" where
  "slice_brackets cleaned =
     (case (indexOf cleaned (CHR ''[''), lastIndexOf cleaned (CHR '']'')) of
        (Some firstBracket, Some lastBracket) \<Rightarrow>
          if lastBracket > firstBracket
          then substring cleaned firstBracket (lastBracket + 1)
          else cleaned
      | _ \<Rightarrow> cleaned)"

text \<open>Lines 81 to 92: the text handed to \<open>JSON.parse\<close> first.\<close>

definition clean_response :: "string \<Rightarrow> string" where
  "clean_response text = slice_brackets (strip_fences (trim text))"

text \<open>
  \<open>cleaned.match(/\[[\s\S]*\]/)\<close>: the match starts at the leftmost \<open>[\<close> that has a
  \<open>]\<close> somewhere after it and, the star being greedy and \<open>[\s\S]\<close> matching every
  character, runs to the last \<open>]\<close> of the text. \<open>None\<close> is the result \<open>null\<close>.
\<close>

fun match_array :: "string \<Rightarrow> string option" where
  "match_array [] = None"
| "match_array (x # xs) =
     (case (x = CHR ''['', lastIndexOf xs (CHR '']'')) of
        (True, Some i) \<Rightarrow> Some (x # take (Suc i) xs)
      | _ \<Rightarrow> match_array xs)"

text \<open>
  The decimal text of an integer, as a template literal renders a window bound or an index
  (exactly so below \<open>10\<^sup>2\<^sup>1\<close>, where JavaScript changes to exponent notation).
\<close>

definition digit_char :: "nat \<Rightarrow> char" where
  "digit_char d = ''0123456789'' ! d"

function show_nat :: "nat \<Rightarrow> string" where
  "show_nat n = (if n < 10 then [digit_char n] else show_nat (n div 10) @ [digit_char (n mod 10)])"
  by pat_completeness auto
termination
  by (relation "measure id") auto

declare show_nat.simps [simp del]

definition show_int :: "int \<Rightarrow> string" where
  "show_int i = (if i < 0 then CHR ''-'' # show_nat (nat (- i)) else show_nat (nat i))"

section \<open>Values and exceptions\<close>

text \<open>
  The values \<open>JSON.parse\<close> returns. A number is kept as the decimal \<open>m \<times> 10\<^sup>e\<close> its
  literal denotes; the program never computes with one, it only asks whether a value is a
  number and whether a value is truthy. An object is the list of its properties in insertion
  order, each name once.
\<close>

datatype json =
    JNull
  | JBool bool
  | JNum int int
  | JStr string
  | JArr "json list"
  | JObj "(string \<times> json) list"

text \<open>What a \<open>throw\<close> carries: the kind of the error object and its \<open>message\<close>. What
  the backend throws is taken to be such an error object too, as the client library's are.\<close>

datatype exn =
    Error (message: string)
  | TypeError (message: string)
  | SyntaxError (message: string)

text \<open>
  \<open>ToBoolean\<close>. A property that is absent reads as \<open>undefined\<close>, which is \<open>None\<close> here.
  A number is falsy when it is zero as a double: the decimal is zero, or it is so small that
  it rounds to zero (at most \<open>2\<^sup>-\<^sup>1\<^sup>0\<^sup>7\<^sup>5\<close> in absolute value).
\<close>

definition num_is_zero :: "int \<Rightarrow> int \<Rightarrow> bool" where
  "num_is_zero m e = (m = 0 \<or> (e < 0 \<and> \<bar>m\<bar> * 2 ^ 1075 \<le> 10 ^ nat (- e)))"

fun truthy :: "json option \<Rightarrow> bool" where
  "truthy None = False"
| "truthy (Some JNull) = False"
| "truthy (Some (JBool b)) = b"
| "truthy (Some (JNum m e)) = (\<not> num_is_zero m e)"
| "truthy (Some (JStr s)) = (s \<noteq> [])"
| "truthy (Some (JArr xs)) = True"
| "truthy (Some (JObj kvs)) = True"

text \<open>\<open>typeof v\<close>\<close>

fun typeof :: "json option \<Rightarrow> string" where
  "typeof None = ''undefined''"
| "typeof (Some JNull) = ''object''"
| "typeof (Some (JBool b)) = ''boolean''"
| "typeof (Some (JNum m e)) = ''number''"
| "typeof (Some (JStr s)) = ''string''"
| "typeof (Some (JArr xs)) = ''object''"
| "typeof (Some (JObj kvs)) = ''object''"

text \<open>\<open>Array.isArray(v)\<close>\<close>

fun isArray :: "json option \<Rightarrow> bool" where
  "isArray (Some (JArr xs)) = True"
| "isArray _ = False"

text \<open>
  The message of the \<open>TypeError\<close> that reading a property of \<open>null\<close> or \<open>undefined\<close>
  raises. Its wording is the engine's own; this is V8's.
\<close>

definition null_property_message :: "string \<Rightarrow> string \<Rightarrow> string" where
  "null_property_message what k =
     ''Cannot read properties of '' @ what @ '' (reading '' @ [CHR 0x27] @ k @ [CHR 0x27] @ '')''"

text \<open>
  \<open>v.k\<close> for the property names the program reads in a parsed payload, \<open>title\<close>,
  \<open>itinerary\<close>, \<open>name\<close>, \<open>description\<close>, \<open>location\<close>, \<open>lat\<close> and \<open>lng\<close>, and in
  the reply of the image search, \<open>results\<close>, \<open>urls\<close> and \<open>regular\<close>. Reading a
  property of \<open>null\<close> or \<open>undefined\<close> throws; an object gives the property or
  \<open>undefined\<close>; an array, a string, a number and a boolean have none of these names (neither
  their own nor inherited), so the result is \<open>undefined\<close>.
\<close>

fun get_prop :: "json option \<Rightarrow> string \<Rightarrow> exn + json option" where
  "get_prop None k = Inl (TypeError (null_property_message ''undefined'' k))"
| "get_prop (Some JNull) k = Inl (TypeError (null_property_message ''null'' k))"
| "get_prop (Some (JObj kvs)) k = Inr (map_of kvs k)"
| "get_prop (Some v) k = Inr None"

text \<open>The own property \<open>k\<close> of a value, \<open>None\<close> when it has none. The program
  reads through \<open>get_prop\<close>; this is how the statements of the properties below read a
  value.\<close>

definition field :: "json \<Rightarrow> string \<Rightarrow> json option" where
  "field v k = (case v of JObj kvs \<Rightarrow> map_of kvs k | _ \<Rightarrow> None)"

section \<open>\<open>JSON.parse\<close>\<close>

text \<open>
  \<open>JSON.parse\<close> is a built-in of the language. The functions of the program below take it
  as a parameter \<open>parse\<close>, so that what is proved of them holds for every engine; this
  section gives the parser of the JSON grammar (ECMA-404, as ECMA-262 refines it: a later
  duplicate of a property name overwrites the earlier value) that concrete runs use. It reads
  the text into tokens and the tokens into a value with a stack of the containers still open.
\<close>

datatype token =
    TLBracket | TRBracket | TLBrace | TRBrace | TComma | TColon
  | TValue json

definition byte :: "char \<Rightarrow> nat" where
  "byte c = of_char c"

definition is_digit :: "char \<Rightarrow> bool" where
  "is_digit c = (48 \<le> byte c \<and> byte c \<le> 57)"

definition digit_val :: "char \<Rightarrow> int" where
  "digit_val c = of_char c - 48"

definition digits_val :: "string \<Rightarrow> int" where
  "digits_val ds = foldl (\<lambda>a c. 10 * a + digit_val c) 0 ds"

definition json_ws :: "char \<Rightarrow> bool" where
  "json_ws c = (c = CHR 0x20 \<or> c = CHR 0x09 \<or> c = CHR 0x0A \<or> c = CHR 0x0D)"

text \<open>
  A number: \<open>-? (0 | [1-9][0-9]*) (. [0-9]+)? ([eE] [+-]? [0-9]+)?\<close>. The result is the
  value and the text behind the literal.
\<close>

definition lex_exponent :: "string \<Rightarrow> (int \<times> string) option" where
  "lex_exponent s =
     (case s of
        [] \<Rightarrow> Some (0, s)
      | c # r \<Rightarrow>
          if c = CHR ''e'' \<or> c = CHR ''E'' then
            (let neg = (r \<noteq> [] \<and> hd r = CHR ''-'');
                 r' = (if r \<noteq> [] \<and> (hd r = CHR ''-'' \<or> hd r = CHR ''+'') then tl r else r);
                 ds = takeWhile is_digit r'
             in if ds = [] then None
                else Some ((if neg then - digits_val ds else digits_val ds),
                           dropWhile is_digit r'))
          else Some (0, s))"

definition lex_fraction :: "string \<Rightarrow> (string \<times> string) option" where
  "lex_fraction s =
     (case s of
        [] \<Rightarrow> Some ([], s)
      | c # r \<Rightarrow>
          if c = CHR ''.'' then
            (let ds = takeWhile is_digit r
             in if ds = [] then None else Some (ds, dropWhile is_digit r))
          else Some ([], s))"

definition lex_number :: "string \<Rightarrow> (json \<times> string) option" where
  "lex_number s =
     (let neg = (s \<noteq> [] \<and> hd s = CHR ''-'');
          s1 = (if neg then tl s else s);
          ds = takeWhile is_digit s1
      in if ds = [] \<or> (length ds > 1 \<and> hd ds = CHR ''0'') then None
         else case lex_fraction (dropWhile is_digit s1) of
                None \<Rightarrow> None
              | Some (fs, s2) \<Rightarrow>
                  (case lex_exponent s2 of
                     None \<Rightarrow> None
                   | Some (ex, s3) \<Rightarrow>
                       Some (JNum ((if neg then - 1 else 1) * digits_val (ds @ fs))
                                  (ex - int (length fs)), s3)))"

text \<open>The UTF-8 bytes of a code point.\<close>

definition utf8 :: "nat \<Rightarrow> string" where
  "utf8 cp =
     (if cp < 0x80 then [char_of cp]
      else if cp < 0x800 then [char_of (0xC0 + cp div 64), char_of (0x80 + cp mod 64)]
      else if cp < 0x10000 then
        [char_of (0xE0 + cp div 4096), char_of (0x80 + (cp div 64) mod 64),
         char_of (0x80 + cp mod 64)]
      else
        [char_of (0xF0 + cp div 262144), char_of (0x80 + (cp div 4096) mod 64),
         char_of (0x80 + (cp div 64) mod 64), char_of (0x80 + cp mod 64)])"

definition hex_val :: "char \<Rightarrow> nat option" where
  "hex_val c =
     (if is_digit c then Some (byte c - 48)
      else if 97 \<le> byte c \<and> byte c \<le> 102 then Some (byte c - 87)
      else if 65 \<le> byte c \<and> byte c \<le> 70 then Some (byte c - 55)
      else None)"

text \<open>The four hexadecimal digits of a \<open>\u\<close> escape.\<close>

definition hex4 :: "string \<Rightarrow> nat option" where
  "hex4 s =
     (case s of
        a # b # c # d # r \<Rightarrow>
          (case (hex_val a, hex_val b, hex_val c, hex_val d) of
             (Some x, Some y, Some z, Some w) \<Rightarrow> Some (((x * 16 + y) * 16 + z) * 16 + w)
           | _ \<Rightarrow> None)
      | _ \<Rightarrow> None)"

text \<open>
  What stands behind a backslash in a string: the bytes it denotes and the text behind the
  escape. An escaped high surrogate followed by an escaped low surrogate is one character;
  a surrogate on its own is kept, in three bytes.
\<close>

definition lex_escape :: "string \<Rightarrow> (string \<times> string) option" where
  "lex_escape s =
     (case s of
        [] \<Rightarrow> None
      | e # r \<Rightarrow>
          if e = CHR 0x22 then Some ([CHR 0x22], r)
          else if e = CHR 0x5C then Some ([CHR 0x5C], r)
          else if e = CHR ''/'' then Some (''/'', r)
          else if e = CHR ''b'' then Some ([CHR 0x08], r)
          else if e = CHR ''f'' then Some ([CHR 0x0C], r)
          else if e = CHR ''n'' then Some ([CHR 0x0A], r)
          else if e = CHR ''r'' then Some ([CHR 0x0D], r)
          else if e = CHR ''t'' then Some ([CHR 0x09], r)
          else if e = CHR ''u'' then
            (case hex4 r of
               None \<Rightarrow> None
             | Some hi \<Rightarrow>
                 (case (if 0xD800 \<le> hi \<and> hi < 0xDC00 \<and> take 2 (drop 4 r) = [CHR 0x5C, CHR ''u'']
                        then hex4 (drop 6 r) else None) of
                    Some lo \<Rightarrow>
                      if 0xDC00 \<le> lo \<and> lo < 0xE000
                      then Some (utf8 (0x10000 + (hi - 0xD800) * 1024 + (lo - 0xDC00)), drop 10 r)
                      else Some (utf8 hi, drop 4 r)
                  | None \<Rightarrow> Some (utf8 hi, drop 4 r)))
          else None)"

lemma lex_escape_shorter: "lex_escape s = Some (b, r) \<Longrightarrow> length r < length s"
  by (auto simp: lex_escape_def split: list.splits if_splits option.splits)

text \<open>The text behind the opening quote of a string: its content and the text behind the
  closing quote.\<close>

function lex_string :: "string \<Rightarrow> (string \<times> string) option" where
  "lex_string [] = None"
| "lex_string (c # cs) =
     (if c = CHR 0x22 then Some ([], cs)
      else if c = CHR 0x5C then
        (case lex_escape cs of
           None \<Rightarrow> None
         | Some (b, r) \<Rightarrow> map_option (\<lambda>(str, rest). (b @ str, rest)) (lex_string r))
      else if byte c < 0x20 then None
      else map_option (\<lambda>(str, rest). (c # str, rest)) (lex_string cs))"
  by pat_completeness auto
termination
  by (relation "measure length") (auto dest: lex_escape_shorter)

lemma takeWhile_dropWhile_length:
  "length (takeWhile P xs) + length (dropWhile P xs) = length xs"
  by (induction xs) auto

lemma lex_fraction_le: "lex_fraction s = Some (fs, r) \<Longrightarrow> length r \<le> length s"
  by (auto simp: lex_fraction_def Let_def split: list.splits if_splits
           intro: le_trans [OF length_dropWhile_le])

lemma lex_exponent_le: "lex_exponent s = Some (ex, r) \<Longrightarrow> length r \<le> length s"
proof (cases s)
  case Nil
  then show "lex_exponent s = Some (ex, r) \<Longrightarrow> length r \<le> length s"
    by (simp add: lex_exponent_def)
next
  case (Cons c t)
  assume a: "lex_exponent s = Some (ex, r)"
  show "length r \<le> length s"
  proof (cases "c = CHR ''e'' \<or> c = CHR ''E''")
    case False
    with a Cons show ?thesis by (auto simp: lex_exponent_def)
  next
    case True
    define t' where "t' = (if t \<noteq> [] \<and> (hd t = CHR ''-'' \<or> hd t = CHR ''+'') then tl t else t)"
    have "r = dropWhile is_digit t'"
      using a Cons True by (auto simp: lex_exponent_def Let_def t'_def split: if_splits)
    moreover have "length (dropWhile is_digit t') \<le> length t'" by (rule length_dropWhile_le)
    moreover have "length t' \<le> length t" by (simp add: t'_def)
    ultimately show ?thesis using Cons by simp
  qed
qed

lemma lex_number_shorter:
  assumes "lex_number s = Some (v, r)"
  shows "length r < length s"
proof -
  define s1 where "s1 = (if s \<noteq> [] \<and> hd s = CHR ''-'' then tl s else s)"
  from assms have ne: "takeWhile is_digit s1 \<noteq> []"
    by (auto simp: lex_number_def Let_def s1_def split: if_splits)
  from assms obtain fs s2 ex where
    f: "lex_fraction (dropWhile is_digit s1) = Some (fs, s2)" and
    e: "lex_exponent s2 = Some (ex, r)"
    by (auto simp: lex_number_def Let_def s1_def split: if_splits option.splits)
  have "length r \<le> length s2" using e by (rule lex_exponent_le)
  also have "\<dots> \<le> length (dropWhile is_digit s1)" using f by (rule lex_fraction_le)
  also have "\<dots> < length s1"
    using ne takeWhile_dropWhile_length [of is_digit s1] by (cases "takeWhile is_digit s1") auto
  also have "\<dots> \<le> length s" by (simp add: s1_def)
  finally show ?thesis .
qed

lemma lex_string_shorter: "lex_string s = Some (str, r) \<Longrightarrow> length r < length s"
proof (induction s arbitrary: str r rule: lex_string.induct)
  case 1
  then show ?case by simp
next
  case (2 c cs)
  show ?case
  proof (cases "c = CHR 0x22")
    case True
    with "2.prems" show ?thesis by simp
  next
    case nq: False
    show ?thesis
    proof (cases "c = CHR 0x5C")
      case True
      with nq "2.prems" obtain b r0 str0 where
        esc: "lex_escape cs = Some (b, r0)" and rec: "lex_string r0 = Some (str0, r)"
        by (auto split: option.splits)
      have "length r < length r0" using True nq esc rec "2.IH"(1) [of "(b, r0)" b r0 str0 r] by simp
      moreover have "length r0 < length cs" using esc by (rule lex_escape_shorter)
      ultimately show ?thesis by simp
    next
      case False
      with nq "2.prems" obtain str0 where rec: "lex_string cs = Some (str0, r)"
        by (auto split: if_splits)
      from nq False "2.prems" have nctl: "\<not> byte c < 0x20" by (auto split: if_splits)
      have "length r < length cs" using "2.IH"(2) [OF nq False nctl rec] .
      then show ?thesis by simp
    qed
  qed
qed

text \<open>The punctuation of JSON.\<close>

definition punctuation :: "char \<Rightarrow> token option" where
  "punctuation c =
     (if c = CHR ''['' then Some TLBracket
      else if c = CHR '']'' then Some TRBracket
      else if c = CHR ''{'' then Some TLBrace
      else if c = CHR ''}'' then Some TRBrace
      else if c = CHR '','' then Some TComma
      else if c = CHR '':'' then Some TColon
      else None)"

text \<open>The literals \<open>true\<close>, \<open>false\<close> and \<open>null\<close>.\<close>

definition lex_literal :: "string \<Rightarrow> (token \<times> string) option" where
  "lex_literal s =
     (if prefix ''true'' s then Some (TValue (JBool True), drop 4 s)
      else if prefix ''false'' s then Some (TValue (JBool False), drop 5 s)
      else if prefix ''null'' s then Some (TValue JNull, drop 4 s)
      else None)"

text \<open>The token a text starts with and the text behind it; \<open>None\<close> when it starts with
  no token.\<close>

definition next_token :: "string \<Rightarrow> (token \<times> string) option" where
  "next_token s =
     (case s of
        [] \<Rightarrow> None
      | c # cs \<Rightarrow>
          (case punctuation c of
             Some t \<Rightarrow> Some (t, cs)
           | None \<Rightarrow>
               if c = CHR 0x22 then
                 map_option (\<lambda>(str, r). (TValue (JStr str), r)) (lex_string cs)
               else if c = CHR ''-'' \<or> is_digit c then
                 map_option (\<lambda>(v, r). (TValue v, r)) (lex_number s)
               else lex_literal s))"

lemma drop_prefix_shorter:
  assumes "prefix k s" and "k \<noteq> []" and "n = length k"
  shows "length (drop n s) < length s"
proof -
  from assms(1) have "length k \<le> length s" by (rule prefix_length_le)
  moreover from assms(2) have "0 < length k" by simp
  ultimately have "length s - length k < length s" by arith
  then show ?thesis using assms(3) by simp
qed

lemma lex_literal_shorter:
  assumes "lex_literal s = Some (t, r)"
  shows "length r < length s"
proof -
  consider (t) "prefix ''true'' s" "r = drop 4 s"
    | (f) "prefix ''false'' s" "r = drop 5 s"
    | (n) "prefix ''null'' s" "r = drop 4 s"
    using assms unfolding lex_literal_def by (metis option.distinct(1) option.inject prod.inject)
  then show ?thesis
  proof cases
    case t
    then show ?thesis using drop_prefix_shorter [of "''true''" s 4] by simp
  next
    case f
    then show ?thesis using drop_prefix_shorter [of "''false''" s 5] by simp
  next
    case n
    then show ?thesis using drop_prefix_shorter [of "''null''" s 4] by simp
  qed
qed

lemma next_token_shorter:
  assumes "next_token s = Some (t, r)"
  shows "length r < length s"
proof (cases s)
  case Nil
  with assms show ?thesis by (simp add: next_token_def)
next
  case (Cons c cs)
  show ?thesis
  proof (cases "punctuation c")
    case (Some p)
    with assms Cons have "r = cs" by (simp add: next_token_def)
    with Cons show ?thesis by simp
  next
    case None
    consider (str) "c = CHR 0x22" | (num) "c \<noteq> CHR 0x22" "c = CHR ''-'' \<or> is_digit c"
      | (lit) "c \<noteq> CHR 0x22" "\<not> (c = CHR ''-'' \<or> is_digit c)"
      by blast
    then show ?thesis
    proof cases
      case str
      with assms Cons None have "map_option (\<lambda>(str, r). (TValue (JStr str), r)) (lex_string cs) = Some (t, r)"
        by (simp add: next_token_def)
      then obtain x where "lex_string cs = Some (x, r)" by auto
      then have "length r < length cs" by (rule lex_string_shorter)
      with Cons show ?thesis by simp
    next
      case num
      with assms Cons None have "map_option (\<lambda>(v, r). (TValue v, r)) (lex_number s) = Some (t, r)"
        by (simp add: next_token_def)
      then obtain v where "lex_number s = Some (v, r)" by auto
      then show ?thesis by (rule lex_number_shorter)
    next
      case lit
      with assms Cons None have "lex_literal s = Some (t, r)"
        by (simp add: next_token_def)
      then show ?thesis by (rule lex_literal_shorter)
    qed
  qed
qed

text \<open>The tokens of a text, white space between them skipped; \<open>None\<close> when some part of
  it is no token.\<close>

function tokens :: "string \<Rightarrow> token list option" where
  "tokens s =
     (case dropWhile json_ws s of
        [] \<Rightarrow> Some []
      | c # cs \<Rightarrow>
          (case next_token (c # cs) of
             None \<Rightarrow> None
           | Some (t, r) \<Rightarrow> map_option (Cons t) (tokens r)))"
  by pat_completeness auto
termination
proof (relation "measure length")
  show "wf (measure length)" by simp
next
  fix s :: string and c cs x t r
  assume d: "dropWhile json_ws s = c # cs" and n: "next_token (c # cs) = Some x" and x: "(t, r) = x"
  have "length r < length (c # cs)" using n x next_token_shorter [of "c # cs" t r] by simp
  also have "\<dots> \<le> length s" using d length_dropWhile_le [of json_ws s] by simp
  finally show "(r, s) \<in> measure length" by simp
qed

declare tokens.simps [simp del]

text \<open>
  The containers still open, innermost first: an array with the elements read so far, an
  object with the properties read so far, or an object whose next property has its name read
  and its value still to come.
\<close>

datatype frame =
    InArray "json list"
  | InObject "(string \<times> json) list"
  | InMember "(string \<times> json) list" string

text \<open>What may come next.\<close>

datatype expect =
    WantValue
  | WantValueOrEnd
  | WantKeyOrEnd
  | WantKey
  | WantColon
  | WantSepOrEnd
  | Finished json

text \<open>Setting a property: an existing name keeps its place and takes the new value.\<close>

fun put_prop :: "string \<Rightarrow> json \<Rightarrow> (string \<times> json) list \<Rightarrow> (string \<times> json) list" where
  "put_prop k v [] = [(k, v)]"
| "put_prop k v ((k', v') # kvs) =
     (if k' = k then (k, v) # kvs else (k', v') # put_prop k v kvs)"

text \<open>A value that is complete goes into the container around it.\<close>

fun deliver :: "json \<Rightarrow> frame list \<Rightarrow> (expect \<times> frame list) option" where
  "deliver v [] = Some (Finished v, [])"
| "deliver v (InArray es # fs) = Some (WantSepOrEnd, InArray (es @ [v]) # fs)"
| "deliver v (InMember kvs k # fs) = Some (WantSepOrEnd, InObject (put_prop k v kvs) # fs)"
| "deliver v (InObject kvs # fs) = None"

definition begin_value :: "token \<Rightarrow> frame list \<Rightarrow> (expect \<times> frame list) option" where
  "begin_value t fs =
     (case t of
        TValue v \<Rightarrow> deliver v fs
      | TLBracket \<Rightarrow> Some (WantValueOrEnd, InArray [] # fs)
      | TLBrace \<Rightarrow> Some (WantKeyOrEnd, InObject [] # fs)
      | _ \<Rightarrow> None)"

definition begin_member :: "token \<Rightarrow> frame list \<Rightarrow> (expect \<times> frame list) option" where
  "begin_member t fs =
     (case (t, fs) of
        (TValue (JStr k), InObject kvs # fs') \<Rightarrow> Some (WantColon, InMember kvs k # fs')
      | _ \<Rightarrow> None)"

definition end_container :: "token \<Rightarrow> frame list \<Rightarrow> (expect \<times> frame list) option" where
  "end_container t fs =
     (case (t, fs) of
        (TRBracket, InArray es # fs') \<Rightarrow> deliver (JArr es) fs'
      | (TRBrace, InObject kvs # fs') \<Rightarrow> deliver (JObj kvs) fs'
      | _ \<Rightarrow> None)"

definition step :: "token \<Rightarrow> expect \<times> frame list \<Rightarrow> (expect \<times> frame list) option" where
  "step t st =
     (case st of (ex, fs) \<Rightarrow>
        (case ex of
           WantValue \<Rightarrow> begin_value t fs
         | WantValueOrEnd \<Rightarrow> if t = TRBracket then end_container t fs else begin_value t fs
         | WantKeyOrEnd \<Rightarrow> if t = TRBrace then end_container t fs else begin_member t fs
         | WantKey \<Rightarrow> begin_member t fs
         | WantColon \<Rightarrow> if t = TColon then Some (WantValue, fs) else None
         | WantSepOrEnd \<Rightarrow>
             if t = TComma
             then (case fs of
                     InArray es # fs' \<Rightarrow> Some (WantValue, fs)
                   | InObject kvs # fs' \<Rightarrow> Some (WantKey, fs)
                   | _ \<Rightarrow> None)
             else end_container t fs
         | Finished v \<Rightarrow> None))"

fun run_tokens :: "token list \<Rightarrow> expect \<times> frame list \<Rightarrow> json option" where
  "run_tokens [] st = (case st of (Finished v, fs) \<Rightarrow> Some v | _ \<Rightarrow> None)"
| "run_tokens (t # ts) st = (case step t st of None \<Rightarrow> None | Some st' \<Rightarrow> run_tokens ts st')"

text \<open>The message of the \<open>SyntaxError\<close> is the engine's own wording; this text stands
  for it.\<close>

definition syntax_error_message :: string where
  "syntax_error_message = ''Unexpected token in JSON''"

definition JSON_parse :: "string \<Rightarrow> exn + json" where
  "JSON_parse s =
     (case tokens s of
        None \<Rightarrow> Inl (SyntaxError syntax_error_message)
      | Some ts \<Rightarrow>
          (case run_tokens ts (WantValue, []) of
             None \<Rightarrow> Inl (SyntaxError syntax_error_message)
           | Some v \<Rightarrow> Inr v))"

section \<open>The itinerary generator (\<open>src/services/gemini.js\<close>)\<close>

definition CHUNK_SIZE :: int where
  "CHUNK_SIZE = 7"

definition nl :: string where
  "nl = [CHR 0x0A]"

text \<open>
  Lines 29 to 71: the prompt of the window \<open>start\<close> to \<open>end\<close>, in three parts: the
  opening sentence, the sentence that names the window, and the rest. \<open>budget\<close> is the
  text a template literal renders the budget as.
\<close>

definition prompt_head :: "string \<Rightarrow> string \<Rightarrow> string" where
  \<open>prompt_head city budget =
      ''Generate a detailed day-by-day travel itinerary for '' @ city @ '' with a budget of '' @ budget @ ''.'' @ nl @
      nl\<close>

definition window_sentence :: "int \<Rightarrow> int \<Rightarrow> string" where
  \<open>window_sentence start end =
      ''Create plans ONLY for days '' @ show_int start @ '' to '' @ show_int end @ ''.''\<close>

definition prompt_tail :: "string \<Rightarrow> int \<Rightarrow> string" where
  \<open>prompt_tail city start =
      nl @
      nl @
      ''Each place must include a long detailed description (history, cultural significance, architecture, interesting facts, and visitor tips).'' @ nl @
      nl @
      ''IMPORTANT: Use REAL and ACCURATE coordinates (latitude and longitude) for each location. Research actual coordinates for famous landmarks, museums, parks, and attractions in '' @ city @ ''.'' @ nl @
      nl @
      ''ALSO IMPORTANT: For each place, include 2-3 nearby restaurants/food shops and 1-2 nearby hotels with real names, ratings, and prices.'' @ nl @
      nl @
      ''CRITICAL: Return ONLY valid JSON in this exact structure, with NO additional text, explanations, or markdown formatting:'' @ nl @
      nl @
      ''['' @ nl @
      ''  {'' @ nl @
      ''    "title": "Day '' @ show_int start @ '': Short Title",'' @ nl @
      ''    "itinerary": ['' @ nl @
      ''      {'' @ nl @
      ''        "name": "Place 1",'' @ nl @
      ''        "description": "A long, detailed description of the place including its history, cultural significance, architecture, interesting facts, and visitor tips.",'' @ nl @
      ''        "location": { "lat": 28.6139, "lng": 77.2090, "label": "Place 1 Label" },'' @ nl @
      ''        "nearbyFood": ['' @ nl @
      ''          {'' @ nl @
      ''            "name": "Restaurant Name",'' @ nl @
      ''            "rating": "4.5/5",'' @ nl @
      ''            "distance": "300m away",'' @ nl @
      ''            "description": "Brief description of the restaurant and its cuisine"'' @ nl @
      ''          }'' @ nl @
      ''        ],'' @ nl @
      ''        "nearbyHotels": ['' @ nl @
      ''          {'' @ nl @
      ''            "name": "Hotel Name",'' @ nl @
      ''            "rating": "4.3/5",'' @ nl @
      ''            "price": "'' @ [CHR 0xE2, CHR 0x82, CHR 0xB9] @ ''2000/night",'' @ nl @
      ''            "distance": "500m away",'' @ nl @
      ''            "description": "Brief description of the hotel"'' @ nl @
      ''          }'' @ nl @
      ''        ]'' @ nl @
      ''      }'' @ nl @
      ''    ]'' @ nl @
      ''  }'' @ nl @
      '']'' @ nl @
      nl @
      ''Do not include any text before or after the JSON array. Start with [ and end with ].''\<close>

definition prompt :: "string \<Rightarrow> string \<Rightarrow> int \<Rightarrow> int \<Rightarrow> string" where
  "prompt city budget start end =
     prompt_head city budget @ window_sentence start end @ prompt_tail city start"

text \<open>
  Lines 96 to 116: the cleaned text is parsed; when that fails the regular expression is
  tried on it and its match parsed. \<open>parse\<close> is \<open>JSON.parse\<close>. The result is the texts
  handed to \<open>parse\<close>, in order, and the outcome.
\<close>

definition parse_chunk ::
  "(string \<Rightarrow> exn + json) \<Rightarrow> int \<Rightarrow> int \<Rightarrow> string \<Rightarrow> string list \<times> (exn + json)" where
  "parse_chunk parse start end cleaned =
     (case parse cleaned of
        Inr chunk \<Rightarrow> ([cleaned], Inr chunk)
      | Inl parseError \<Rightarrow>
          (case match_array cleaned of
             Some jsonMatch \<Rightarrow>
               (case parse jsonMatch of
                  Inr chunk \<Rightarrow> ([cleaned, jsonMatch], Inr chunk)
                | Inl recoveryError \<Rightarrow>
                    ([cleaned, jsonMatch],
                     Inl (Error (''JSON parsing failed for days '' @ show_int start @ ''-'' @
                                 show_int end @ '': '' @ message parseError))))
           | None \<Rightarrow>
               ([cleaned],
                Inl (Error (''No valid JSON array found in response for days '' @
                            show_int start @ ''-'' @ show_int end)))))"

text \<open>Line 117 reads \<open>chunk.length\<close> for the log, which throws when the chunk is
  \<open>null\<close>.\<close>

definition read_length :: "json \<Rightarrow> exn + unit" where
  "read_length chunk =
     (if chunk = JNull then Inl (TypeError (null_property_message ''null'' ''length''))
      else Inr ())"

text \<open>
  Line 131: \<open>!place.name || !place.description || !place.location ||
  typeof place.location.lat !== 'number' || typeof place.location.lng !== 'number'\<close>, read
  from the left, a later operand only when the earlier ones are false.
\<close>

definition place_invalid :: "json \<Rightarrow> exn + bool" where
  "place_invalid place =
     (case get_prop (Some place) ''name'' of
        Inl ex \<Rightarrow> Inl ex
      | Inr name \<Rightarrow>
          if \<not> truthy name then Inr True
          else case get_prop (Some place) ''description'' of
            Inl ex \<Rightarrow> Inl ex
          | Inr description \<Rightarrow>
              if \<not> truthy description then Inr True
              else case get_prop (Some place) ''location'' of
                Inl ex \<Rightarrow> Inl ex
              | Inr location \<Rightarrow>
                  if \<not> truthy location then Inr True
                  else case get_prop location ''lat'' of
                    Inl ex \<Rightarrow> Inl ex
                  | Inr lat \<Rightarrow>
                      if typeof lat \<noteq> ''number'' then Inr True
                      else case get_prop location ''lng'' of
                        Inl ex \<Rightarrow> Inl ex
                      | Inr lng \<Rightarrow> Inr (typeof lng \<noteq> ''number''))"

definition invalid_place_message :: "nat \<Rightarrow> nat \<Rightarrow> int \<Rightarrow> int \<Rightarrow> string" where
  "invalid_place_message placeIndex index start end =
     ''Invalid place structure at place '' @ show_nat placeIndex @ '' in day '' @
     show_nat index @ '' of chunk '' @ show_int start @ ''-'' @ show_int end"

text \<open>Lines 130 to 135: \<open>day.itinerary.forEach\<close>, from the place at \<open>placeIndex\<close> on.\<close>

fun validate_places :: "int \<Rightarrow> int \<Rightarrow> nat \<Rightarrow> nat \<Rightarrow> json list \<Rightarrow> exn + unit" where
  "validate_places start end index placeIndex [] = Inr ()"
| "validate_places start end index placeIndex (place # rest) =
     (case place_invalid place of
        Inl ex \<Rightarrow> Inl ex
      | Inr True \<Rightarrow> Inl (Error (invalid_place_message placeIndex index start end))
      | Inr False \<Rightarrow> validate_places start end index (Suc placeIndex) rest)"

text \<open>Line 126: \<open>!day.title || !day.itinerary || !Array.isArray(day.itinerary)\<close>\<close>

definition day_invalid :: "json \<Rightarrow> exn + bool" where
  "day_invalid day =
     (case get_prop (Some day) ''title'' of
        Inl ex \<Rightarrow> Inl ex
      | Inr title \<Rightarrow>
          if \<not> truthy title then Inr True
          else case get_prop (Some day) ''itinerary'' of
            Inl ex \<Rightarrow> Inl ex
          | Inr itinerary \<Rightarrow>
              if \<not> truthy itinerary then Inr True
              else Inr (\<not> isArray itinerary))"

definition invalid_day_message :: "nat \<Rightarrow> int \<Rightarrow> int \<Rightarrow> string" where
  "invalid_day_message index start end =
     ''Invalid day structure at index '' @ show_nat index @ '' in chunk '' @
     show_int start @ ''-'' @ show_int end"

text \<open>
  Lines 125 to 136: \<open>chunk.forEach\<close>, from the day at \<open>index\<close> on. Behind the check of line
  126 \<open>day.itinerary\<close> is an array; the last case, a call of \<open>forEach\<close> on something else,
  is there for totality only.
\<close>

fun validate_days :: "int \<Rightarrow> int \<Rightarrow> nat \<Rightarrow> json list \<Rightarrow> exn + unit" where
  "validate_days start end index [] = Inr ()"
| "validate_days start end index (day # rest) =
     (case day_invalid day of
        Inl ex \<Rightarrow> Inl ex
      | Inr True \<Rightarrow> Inl (Error (invalid_day_message index start end))
      | Inr False \<Rightarrow>
          (case get_prop (Some day) ''itinerary'' of
             Inr (Some (JArr places)) \<Rightarrow>
               (case validate_places start end index 0 places of
                  Inl ex \<Rightarrow> Inl ex
                | Inr u \<Rightarrow> validate_days start end (Suc index) rest)
           | _ \<Rightarrow> Inl (TypeError ''day.itinerary.forEach is not a function'')))"

definition not_array_message :: "json \<Rightarrow> int \<Rightarrow> int \<Rightarrow> string" where
  "not_array_message chunk start end =
     ''Expected array but got '' @ typeof (Some chunk) @ '' for days '' @
     show_int start @ ''-'' @ show_int end"

text \<open>Lines 119 to 136. The result is the list of the days of an accepted chunk, which
  line 138 appends.\<close>

definition validate_chunk :: "int \<Rightarrow> int \<Rightarrow> json \<Rightarrow> exn + json list" where
  "validate_chunk start end chunk =
     (case chunk of
        JArr days \<Rightarrow>
          (case validate_days start end 0 days of Inl ex \<Rightarrow> Inl ex | Inr u \<Rightarrow> Inr days)
      | _ \<Rightarrow> Inl (Error (not_array_message chunk start end)))"

text \<open>Lines 117 to 136: what becomes of a parsed payload.\<close>

definition check_chunk :: "int \<Rightarrow> int \<Rightarrow> json \<Rightarrow> exn + json list" where
  "check_chunk start end chunk =
     (case read_length chunk of
        Inl ex \<Rightarrow> Inl ex
      | Inr u \<Rightarrow> validate_chunk start end chunk)"

text \<open>Lines 80 to 136: from the text of a response to the days of its window.\<close>

definition process_response :: "(string \<Rightarrow> exn + json) \<Rightarrow> int \<Rightarrow> int \<Rightarrow> string \<Rightarrow> exn + json list" where
  "process_response parse start end text =
     (case snd (parse_chunk parse start end (clean_response text)) of
        Inl ex \<Rightarrow> Inl ex
      | Inr chunk \<Rightarrow> check_chunk start end chunk)"

text \<open>
  Lines 25 to 139: the loop over the windows. The generative backend is \<open>generateContent\<close>:
  to the \<open>n\<close>-th request of a run (counted from 0) with prompt \<open>p\<close> it answers
  \<open>generateContent n p\<close>, a text or an exception (a rejected request, or a response whose
  \<open>text()\<close> throws). The state of the loop is \<open>start\<close>, the prompts sent so far and
  \<open>fullItinerary\<close>; the result is the prompts sent and either the exception that left the
  loop or the final \<open>fullItinerary\<close>.
\<close>

function windows_loop ::
  "(nat \<Rightarrow> string \<Rightarrow> exn + string) \<Rightarrow> (string \<Rightarrow> exn + json) \<Rightarrow> string \<Rightarrow> string \<Rightarrow> int \<Rightarrow>
     int \<Rightarrow> string list \<Rightarrow> json list \<Rightarrow> string list \<times> (exn + json list)" where
  "windows_loop generateContent parse city budget days start sent fullItinerary =
     (if start \<le> days then
        (let end = min (start + CHUNK_SIZE - 1) days;
             p = prompt city budget start end
         in case generateContent (length sent) p of
              Inl ex \<Rightarrow> (sent @ [p], Inl ex)
            | Inr text \<Rightarrow>
                (case process_response parse start end text of
                   Inl ex \<Rightarrow> (sent @ [p], Inl ex)
                 | Inr chunk \<Rightarrow>
                     windows_loop generateContent parse city budget days (start + CHUNK_SIZE)
                       (sent @ [p]) (fullItinerary @ chunk)))
      else (sent, Inr fullItinerary))"
  by pat_completeness auto
termination
  by (relation "measure (\<lambda>(g, p, c, b, days, start, sent, full). nat (days + 1 - start))")
     (auto simp: CHUNK_SIZE_def)

declare windows_loop.simps [simp del]

text \<open>Lines 162 to 173: the plan returned when the loop was left by an exception.\<close>

definition fallback :: "exn \<Rightarrow> json list" where
  "fallback err =
     [JObj
        [(''title'', JStr ''Day 1: Default Plan (API Error)''),
         (''itinerary'',
          JArr
            [JObj
               [(''name'', JStr ''Fallback Spot''),
                (''description'',
                 JStr (''Default location because AI parsing failed. Error: '' @ message err)),
                (''location'',
                 JObj
                   [(''lat'', JNum 286139 (- 4)),
                    (''lng'', JNum 772090 (- 4)),
                    (''label'', JStr ''Fallback Spot'')])]])]]"

text \<open>
  \<open>generateItinerary(city, budget, days)\<close>. \<open>apiKey\<close> is
  \<open>process.env.REACT_APP_GEMINI_API_KEY\<close>, \<open>None\<close> when the variable is not set. The
  result is the prompts sent to the backend and the outcome: \<open>Inl\<close> an exception thrown
  to the caller, \<open>Inr\<close> the value returned. \<open>getGenerativeModel\<close> (line 15) builds the
  client object and is taken not to throw. \<open>days\<close> is an integer, as the caller passes it
  (clamped to 1..21), and integers of this size are exact in a double.
\<close>

definition generateItinerary ::
  "string option \<Rightarrow> (nat \<Rightarrow> string \<Rightarrow> exn + string) \<Rightarrow> (string \<Rightarrow> exn + json) \<Rightarrow> string \<Rightarrow> string \<Rightarrow>
     int \<Rightarrow> string list \<times> (exn + json list)" where
  "generateItinerary apiKey generateContent parse city budget days =
     (if apiKey = None \<or> apiKey = Some []
      then ([], Inl (Error ''Gemini API key is missing. Please check your .env file.''))
      else case windows_loop generateContent parse city budget days 1 [] [] of
             (sent, Inr fullItinerary) \<Rightarrow> (sent, Inr fullItinerary)
           | (sent, Inl err) \<Rightarrow> (sent, Inr (fallback err)))"

section \<open>The loop, window by window\<close>

text \<open>
  The windows the loop header of line 25 and line 26 go through, from \<open>start\<close> on: each
  is \<open>CHUNK_SIZE\<close> days long but the last, which ends with the last day.
\<close>

function windows :: "int \<Rightarrow> int \<Rightarrow> (int \<times> int) list" where
  "windows days start =
     (if start \<le> days
      then (start, min (start + CHUNK_SIZE - 1) days) # windows days (start + CHUNK_SIZE)
      else [])"
  by pat_completeness auto
termination
  by (relation "measure (\<lambda>(days, start). nat (days + 1 - start))") (auto simp: CHUNK_SIZE_def)

declare windows.simps [simp del]

text \<open>The prompt of a window, and what the \<open>n\<close>-th request of a run, made for the
  window \<open>w\<close>, comes to: the exception that leaves the loop, or the days line 138 appends.\<close>

definition window_prompt :: "string \<Rightarrow> string \<Rightarrow> int \<times> int \<Rightarrow> string" where
  "window_prompt city budget w = (case w of (start, end) \<Rightarrow> prompt city budget start end)"

definition window_outcome ::
  "(nat \<Rightarrow> string \<Rightarrow> exn + string) \<Rightarrow> (string \<Rightarrow> exn + json) \<Rightarrow> string \<Rightarrow> string \<Rightarrow> nat \<Rightarrow>
     int \<times> int \<Rightarrow> exn + json list" where
  "window_outcome generateContent parse city budget n w =
     (case w of (start, end) \<Rightarrow>
        (case generateContent n (prompt city budget start end) of
           Inl ex \<Rightarrow> Inl ex
         | Inr text \<Rightarrow> process_response parse start end text))"

text \<open>The loop over an explicit list of windows; \<open>windows_loop\<close> is this loop over
  \<open>windows days start\<close> (\<open>windows_loop_run\<close> below).\<close>

fun run_windows ::
  "(nat \<Rightarrow> string \<Rightarrow> exn + string) \<Rightarrow> (string \<Rightarrow> exn + json) \<Rightarrow> string \<Rightarrow> string \<Rightarrow>
     (int \<times> int) list \<Rightarrow> string list \<Rightarrow> json list \<Rightarrow> string list \<times> (exn + json list)" where
  "run_windows g p c b [] sent full = (sent, Inr full)"
| "run_windows g p c b (w # ws) sent full =
     (case window_outcome g p c b (length sent) w of
        Inl ex \<Rightarrow> (sent @ [window_prompt c b w], Inl ex)
      | Inr chunk \<Rightarrow> run_windows g p c b ws (sent @ [window_prompt c b w]) (full @ chunk))"

section \<open>The image resolver (\<open>src/services/unsplash.js\<close>, \<open>useImageCache\<close>)\<close>

text \<open>
  \<open>encodeURIComponent\<close> on the UTF-8 bytes of a text: letters, digits and
  \<open>- _ . ! ~ * ' ( )\<close> stay, every other byte becomes \<open>%XX\<close>.
\<close>

definition unreserved :: "char \<Rightarrow> bool" where
  "unreserved c =
     ((65 \<le> byte c \<and> byte c \<le> 90) \<or> (97 \<le> byte c \<and> byte c \<le> 122) \<or> is_digit c \<or>
      c \<in> set [CHR ''-'', CHR ''_'', CHR ''.'', CHR ''!'', CHR ''~'', CHR ''*'', CHR 0x27,
                 CHR ''('', CHR '')''])"

definition hex_digit :: "nat \<Rightarrow> char" where
  "hex_digit d = ''0123456789ABCDEF'' ! d"

definition percent_encode :: "char \<Rightarrow> string" where
  "percent_encode c =
     (if unreserved c then [c]
      else [CHR ''%'', hex_digit (byte c div 16), hex_digit (byte c mod 16)])"

definition encodeURIComponent :: "string \<Rightarrow> string" where
  "encodeURIComponent s = concat (map percent_encode s)"

text \<open>
  The reply of the image search. \<open>fetch\<close> gives for a request URL either nothing (the
  request is rejected) or a response with its \<open>ok\<close> flag and its body: the value
  \<open>res.json()\<close> resolves to, \<open>None\<close> when it rejects. The body is whatever JSON the
  service sent; nothing is assumed about its shape.
\<close>

record response =
  ok :: bool
  json_body :: "json option"

text \<open>
  The number of UTF-16 code units of a text, from its bytes: one for every character, two
  for a character of four bytes.
\<close>

definition utf16_length :: "string \<Rightarrow> nat" where
  "utf16_length s =
     length (filter (\<lambda>c. byte c < 0x80 \<or> 0xC0 \<le> byte c) s) + length (filter (\<lambda>c. 0xF0 \<le> byte c) s)"

text \<open>
  \<open>v.length\<close>: reading it of \<open>null\<close> or \<open>undefined\<close> throws; an array and a text have
  their length, an object has the property when it is its own, a number and a boolean have
  none.
\<close>

fun get_length :: "json option \<Rightarrow> exn + json option" where
  "get_length None = Inl (TypeError (null_property_message ''undefined'' ''length''))"
| "get_length (Some JNull) = Inl (TypeError (null_property_message ''null'' ''length''))"
| "get_length (Some (JArr xs)) = Inr (Some (JNum (int (length xs)) 0))"
| "get_length (Some (JStr s)) = Inr (Some (JNum (int (utf16_length s)) 0))"
| "get_length (Some (JObj kvs)) = Inr (map_of kvs ''length'')"
| "get_length (Some v) = Inr None"

text \<open>
  \<open>v > 0\<close>. \<open>undefined\<close> converts to \<open>NaN\<close>, \<open>null\<close> to 0, \<open>true\<close> to 1 and
  \<open>false\<close> to 0; a number is greater than 0 when its decimal is and it does not round to
  zero. For a text, an array or an object the comparison goes through the engine's
  conversion to a number (\<open>ToPrimitive\<close>, which throws for an object whose own
  \<open>toString\<close> cannot be called, then \<open>StringToNumber\<close>). That conversion is not written
  out: \<open>positive v\<close> is the outcome of \<open>v > 0\<close> for such a \<open>v\<close>, an exception or a truth
  value, and is a parameter of all that follows. It is consulted only when
  \<open>data.results\<close> is an object with a property \<open>length\<close> that is a text, an array or an
  object.
\<close>

fun greater_zero :: "(json \<Rightarrow> exn + bool) \<Rightarrow> json option \<Rightarrow> exn + bool" where
  "greater_zero positive None = Inr False"
| "greater_zero positive (Some JNull) = Inr False"
| "greater_zero positive (Some (JBool b)) = Inr b"
| "greater_zero positive (Some (JNum m e)) = Inr (0 < m \<and> \<not> num_is_zero m e)"
| "greater_zero positive (Some v) = positive v"

text \<open>
  The first UTF-16 code unit of a text, as a text: its first character, or the high
  surrogate of a first character of four bytes (a surrogate on its own is kept in three
  bytes, as in \<open>lex_escape\<close>).
\<close>

definition first_unit :: "string \<Rightarrow> string" where
  "first_unit s =
     (case s of
        [] \<Rightarrow> []
      | a # r \<Rightarrow>
          if byte a < 0x80 then [a]
          else if byte a < 0xE0 then take 2 s
          else if byte a < 0xF0 then take 3 s
          else case r of
            b # c # d # rest \<Rightarrow>
              utf8 (0xD800 +
                ((byte a - 0xF0) * 262144 + (byte b - 0x80) * 4096 + (byte c - 0x80) * 64 +
                 (byte d - 0x80) - 0x10000) div 1024)
          | _ \<Rightarrow> s)"

text \<open>
  \<open>v[0]\<close>: reading it of \<open>null\<close> or \<open>undefined\<close> throws; an array gives its first
  element and a text its first code unit (\<open>undefined\<close> when there is none), an object its
  own property \<open>0\<close>, a number and a boolean \<open>undefined\<close>.
\<close>

fun get_first :: "json option \<Rightarrow> exn + json option" where
  "get_first None = Inl (TypeError (null_property_message ''undefined'' ''0''))"
| "get_first (Some JNull) = Inl (TypeError (null_property_message ''null'' ''0''))"
| "get_first (Some (JArr xs)) = Inr (case xs of [] \<Rightarrow> None | x # rest \<Rightarrow> Some x)"
| "get_first (Some (JStr s)) = Inr (if s = [] then None else Some (JStr (first_unit s)))"
| "get_first (Some (JObj kvs)) = Inr (map_of kvs ''0'')"
| "get_first (Some v) = Inr None"

definition placeholder :: string where
  "placeholder = ''https://via.placeholder.com/600x400?text=No+Image''"

text \<open>Line 7 of \<open>unsplash.js\<close>; \<open>accessKey\<close> is \<open>process.env.REACT_APP_UNSPLASH_KEY\<close>,
  which a template literal renders as \<open>undefined\<close> when it is not set.\<close>

definition search_url :: "string option \<Rightarrow> string \<Rightarrow> string" where
  "search_url accessKey query =
     ''https://api.unsplash.com/search/photos?query='' @ encodeURIComponent query @
     ''&client_id='' @ (case accessKey of None \<Rightarrow> ''undefined'' | Some k \<Rightarrow> k) @
     ''&orientation=landscape&per_page=1''"

text \<open>Line 16: \<open>data.results[0].urls.regular\<close>, each step throwing when it reads a
  property of \<open>null\<close> or \<open>undefined\<close>. The value is returned as it is.\<close>

definition first_regular :: "json option \<Rightarrow> exn + json option" where
  "first_regular results =
     (case get_first results of
        Inl ex \<Rightarrow> Inl ex
      | Inr first \<Rightarrow>
          (case get_prop first ''urls'' of
             Inl ex \<Rightarrow> Inl ex
           | Inr urls \<Rightarrow> get_prop urls ''regular''))"

text \<open>Lines 6 to 20, the body of the \<open>try\<close>. \<open>data.results\<close> is read twice, of the same
  \<open>data\<close>, and is bound once here.\<close>

definition search_first ::
  "(json \<Rightarrow> exn + bool) \<Rightarrow> (string \<Rightarrow> response option) \<Rightarrow> string option \<Rightarrow> string \<Rightarrow> exn + json option" where
  "search_first positive fetch accessKey query =
     (case fetch (search_url accessKey query) of
        None \<Rightarrow> Inl (TypeError ''Failed to fetch'')
      | Some res \<Rightarrow>
          if \<not> ok res then Inl (Error ''Unsplash fetch failed'')
          else case json_body res of
            None \<Rightarrow> Inl (SyntaxError syntax_error_message)
          | Some data \<Rightarrow>
              (case get_prop (Some data) ''results'' of
                 Inl ex \<Rightarrow> Inl ex
               | Inr results \<Rightarrow>
                   (case get_length results of
                      Inl ex \<Rightarrow> Inl ex
                    | Inr len \<Rightarrow>
                        (case greater_zero positive len of
                           Inl ex \<Rightarrow> Inl ex
                         | Inr True \<Rightarrow> first_regular results
                         | Inr False \<Rightarrow> Inr (Some (JStr placeholder))))))"

text \<open>
  \<open>getPlaceImage(query)\<close>: the request URLs fetched and the outcome, \<open>Inl\<close> an exception
  thrown to the caller and \<open>Inr\<close> the value returned, \<open>None\<close> for \<open>undefined\<close>. The
  \<open>catch\<close> of line 21 turns every exception of the body into the placeholder.
\<close>

definition getPlaceImage ::
  "(json \<Rightarrow> exn + bool) \<Rightarrow> (string \<Rightarrow> response option) \<Rightarrow> string option \<Rightarrow> string \<Rightarrow>
     string list \<times> (exn + json option)" where
  "getPlaceImage positive fetch accessKey query =
     ([search_url accessKey query],
      case search_first positive fetch accessKey query of
        Inl error \<Rightarrow> Inr (Some (JStr placeholder))
      | Inr url \<Rightarrow> Inr url)"

text \<open>Lines 222 to 224 of \<open>Sidebar.js\<close>\<close>

definition query_fallback :: "string \<Rightarrow> string" where
  "query_fallback query =
     ''https://source.unsplash.com/600x400/?'' @
     encodeURIComponent (if query \<noteq> [] then query else ''travel'')"

text \<open>
  \<open>getOrFetch(key, query)\<close> on the cache \<open>cacheRef.current\<close>: the value returned, the
  cache afterwards and the request URLs fetched. The cache holds what was put into it,
  which is whatever truthy value \<open>getPlaceImage\<close> returned, or the fallback.
\<close>

definition getOrFetch ::
  "(json \<Rightarrow> exn + bool) \<Rightarrow> (string \<Rightarrow> response option) \<Rightarrow> string option \<Rightarrow> (string \<rightharpoonup> json) \<Rightarrow>
     string \<Rightarrow> string \<Rightarrow> json \<times> (string \<rightharpoonup> json) \<times> string list" where
  "getOrFetch positive fetch accessKey cache key query =
     (case (case cache key of Some current \<Rightarrow> if truthy (Some current) then Some current else None
                            | None \<Rightarrow> None) of
        Some current \<Rightarrow> (current, cache, [])
      | None \<Rightarrow>
          (case getPlaceImage positive fetch accessKey query of
             (fetched, Inr (Some url)) \<Rightarrow>
               if truthy (Some url) then (url, cache(key \<mapsto> url), fetched)
               else (JStr (query_fallback query), cache(key \<mapsto> JStr (query_fallback query)), fetched)
           | (fetched, Inr None) \<Rightarrow>
               (JStr (query_fallback query), cache(key \<mapsto> JStr (query_fallback query)), fetched)
           | (fetched, Inl err) \<Rightarrow>
               (JStr (query_fallback query), cache(key \<mapsto> JStr (query_fallback query)), fetched)))"

text \<open>The request brought no photo: it was rejected, or the response is not \<open>ok\<close>, or
  its body cannot be read, or \<open>data.results\<close> is the empty list.\<close>

definition no_photo :: "response option \<Rightarrow> bool" where
  "no_photo r =
     (case r of
        None \<Rightarrow> True
      | Some res \<Rightarrow>
          \<not> ok res \<or>
          (case json_body res of None \<Rightarrow> True | Some data \<Rightarrow> field data ''results'' = Some (JArr [])))"

text \<open>A backend that answers every request with the given body, and three bodies for the
  concrete runs below: one photo as the service documents it, no photo, and a photo whose
  \<open>urls\<close> has no \<open>regular\<close>.\<close>

definition reply_with :: "json \<Rightarrow> string \<Rightarrow> response option" where
  "reply_with body u = Some \<lparr>ok = True, json_body = Some body\<rparr>"

definition kinkakuji_reply :: json where
  "kinkakuji_reply =
     JObj [(''total'', JNum 1 0), (''total_pages'', JNum 1 0),
           (''results'',
            JArr [JObj [(''id'', JStr ''photo-1''),
                        (''urls'', JObj [(''regular'', JStr ''https://images.unsplash.com/photo-1?w=1080''),
                                         (''small'', JStr ''https://images.unsplash.com/photo-1?w=400'')])]])]"

definition no_results_reply :: json where
  "no_results_reply = JObj [(''total'', JNum 0 0), (''total_pages'', JNum 0 0), (''results'', JArr [])]"


text \<open>
  What the specification asks of a parsed payload, in its words: an array in which every
  element has a non-empty title and an array-typed itinerary, and every itinerary entry has
  a name, a description and a location with numeric \<open>lat\<close> and \<open>lng\<close>. "Has" and
  "non-empty" are read as the program reads them: the property is truthy.
\<close>

definition spec_valid_place :: "json \<Rightarrow> bool" where
  "spec_valid_place place =
     (truthy (field place ''name'') \<and> truthy (field place ''description'') \<and>
      truthy (field place ''location'') \<and>
      (case field place ''location'' of
         Some location \<Rightarrow>
           typeof (field location ''lat'') = ''number'' \<and> typeof (field location ''lng'') = ''number''
       | None \<Rightarrow> False))"

definition spec_valid_day :: "json \<Rightarrow> bool" where
  "spec_valid_day day =
     (truthy (field day ''title'') \<and>
      (case field day ''itinerary'' of
         Some (JArr places) \<Rightarrow> list_all spec_valid_place places
       | _ \<Rightarrow> False))"

definition spec_valid_chunk :: "json \<Rightarrow> bool" where
  "spec_valid_chunk chunk =
     (case chunk of JArr days \<Rightarrow> list_all spec_valid_day days | _ \<Rightarrow> False)"

text \<open>The messages that name the index of an offending element are those of line 127 and
  line 133.\<close>

definition names_index :: "string \<Rightarrow> bool" where
  "names_index msg =
     (prefix ''Invalid day structure at index '' msg \<or>
      prefix ''Invalid place structure at place '' msg)"

text \<open>A response that is one well-formed day, and the value it parses to: the input of
  the concrete runs below.\<close>

definition one_day_object_text :: string where
  \<open>one_day_object_text = ''{"title":"Day 1: Temples","itinerary":[{"name":"Kinkaku-ji","description":"Golden Pavilion","location":{"lat":35.0394,"lng":135.7292}}]}''\<close>

definition one_day_text :: string where
  "one_day_text = CHR ''['' # one_day_object_text @ [CHR '']'']"

definition one_day :: json where
  "one_day = JObj
     [(''title'', JStr ''Day 1: Temples''),
      (''itinerary'',
       JArr [JObj [(''name'', JStr ''Kinkaku-ji''), (''description'', JStr ''Golden Pavilion''),
                   (''location'', JObj [(''lat'', JNum 350394 (- 4)), (''lng'', JNum 1357292 (- 4))])]])]"

text \<open>Two responses around an array in code fences: one with a bracket in the prose
  before the fence, one with prose free of brackets.\<close>

definition bracket_prose_text :: string where
  "bracket_prose_text = ''Plan [draft]:'' @ nl @ ''```json'' @ nl @ ''[]'' @ nl @ ''```''"

definition fenced_text :: string where
  "fenced_text =
     ''Sure! Here is your itinerary:'' @ nl @ ''```json'' @ nl @ one_day_text @ nl @ ''```'' @ nl @
     ''Enjoy your trip.''"

section \<open>Properties of the extraction\<close>

lemma match_array_brackets:
  "match_array s =
     (case (indexOf s (CHR ''[''), lastIndexOf s (CHR '']'')) of
        (Some i, Some j) \<Rightarrow> if j > i then Some (substring s i (j + 1)) else None
      | _ \<Rightarrow> None)"
  by (induction s) (auto simp: substring_def split: option.splits)

lemma slice_brackets_match:
  "slice_brackets s = (case match_array s of Some m \<Rightarrow> m | None \<Rightarrow> s)"
  by (simp add: slice_brackets_def match_array_brackets split: option.splits)

lemma indexOf_None: "indexOf s c = None \<longleftrightarrow> c \<notin> set s"
  by (induction s) auto

lemma lastIndexOf_None: "lastIndexOf s c = None \<longleftrightarrow> c \<notin> set s"
  by (induction s) (auto split: option.splits)

lemma indexOf_Some: "indexOf s c = Some i \<Longrightarrow> i < length s \<and> s ! i = c \<and> c \<notin> set (take i s)"
  by (induction s arbitrary: i) (auto split: if_splits)

lemma lastIndexOf_Some:
  "lastIndexOf s c = Some j \<Longrightarrow> j < length s \<and> s ! j = c \<and> c \<notin> set (drop (Suc j) s)"
  by (induction s arbitrary: j) (auto split: option.splits if_splits simp: lastIndexOf_None)

lemma indexOf_append_hit: "c \<notin> set p \<Longrightarrow> indexOf (p @ c # r) c = Some (length p)"
  by (induction p) auto

lemma lastIndexOf_append_hit: "c \<notin> set r \<Longrightarrow> lastIndexOf (p @ c # r) c = Some (length p)"
  by (induction p) (auto simp: lastIndexOf_None [THEN iffD2] split: option.splits)

text \<open>The text between the first opening and the last closing bracket.\<close>

lemma slice_brackets_found:
  assumes "CHR ''['' \<notin> set p" and "CHR '']'' \<notin> set q"
  shows "slice_brackets (p @ CHR ''['' # mid @ CHR '']'' # q) = CHR ''['' # mid @ [CHR '']'']"
proof -
  let ?s = "p @ CHR ''['' # mid @ CHR '']'' # q"
  have i: "indexOf ?s (CHR ''['') = Some (length p)"
    using assms(1) by (rule indexOf_append_hit)
  have "lastIndexOf ((p @ CHR ''['' # mid) @ CHR '']'' # q) (CHR '']'') = Some (length (p @ CHR ''['' # mid))"
    using assms(2) by (rule lastIndexOf_append_hit)
  then have j: "lastIndexOf ?s (CHR '']'') = Some (length p + Suc (length mid))" by simp
  show ?thesis
    by (simp add: slice_brackets_def i j substring_def)
qed

lemma match_array_slice: "match_array (slice_brackets s) = match_array s"
proof (cases "match_array s")
  case None
  then show ?thesis by (simp add: slice_brackets_match)
next
  case (Some m)
  then obtain i j where i: "indexOf s (CHR ''['') = Some i" and j: "lastIndexOf s (CHR '']'') = Some j"
    and ij: "i < j" and m: "m = substring s i (j + 1)"
    by (auto simp: match_array_brackets split: option.splits if_splits)
  from indexOf_Some [OF i] lastIndexOf_Some [OF j]
  have b: "i < length s" "s ! i = CHR ''[''" "j < length s" "s ! j = CHR '']''" by auto
  define mid where "mid = take (j - Suc i) (drop (Suc i) s)"
  have "m = s ! i # mid @ [s ! j]"
  proof -
    have "take (j + 1 - i) (drop i s) = s ! i # take (j - i) (drop (Suc i) s)"
      using b(1) ij by (simp add: Cons_nth_drop_Suc [symmetric] Suc_diff_le)
    moreover have "take (j - i) (drop (Suc i) s) = take (j - Suc i) (drop (Suc i) s) @ [s ! j]"
    proof -
      have "j - i = Suc (j - Suc i)" using ij by simp
      moreover have "j - Suc i < length (drop (Suc i) s)" using b(3) ij by simp
      moreover have "drop (Suc i) s ! (j - Suc i) = s ! j" using ij b(3) by simp
      ultimately show ?thesis by (simp add: take_Suc_conv_app_nth)
    qed
    ultimately show ?thesis by (simp add: m substring_def mid_def)
  qed
  then have m': "m = [] @ CHR ''['' # mid @ CHR '']'' # []" using b by simp
  have "slice_brackets m = CHR ''['' # mid @ [CHR '']'']"
    unfolding m' by (rule slice_brackets_found) simp_all
  then have "slice_brackets m = m" using m' by simp
  have "match_array m = Some m"
    using m' by (simp add: lastIndexOf_append_hit)
  with Some show ?thesis by (simp add: slice_brackets_match)
qed

lemma match_array_clean:
  "match_array (clean_response resp) = None \<or> match_array (clean_response resp) = Some (clean_response resp)"
proof (cases "match_array (strip_fences (trim resp))")
  case None
  then show ?thesis by (simp add: clean_response_def match_array_slice)
next
  case (Some m)
  then have "slice_brackets (strip_fences (trim resp)) = m" by (simp add: slice_brackets_match)
  moreover have "match_array (slice_brackets (strip_fences (trim resp))) = Some m"
    using Some by (simp add: match_array_slice)
  ultimately show ?thesis by (simp add: clean_response_def)
qed

lemma invalid_json_raises:
  assumes "isl (parse (clean_response resp))"
  shows "\<exists>msg. process_response parse start end resp = Inl (Error msg)"
proof -
  obtain pe where pe: "parse (clean_response resp) = Inl pe"
    using assms by (cases "parse (clean_response resp)") auto
  show ?thesis
  proof (cases "match_array (clean_response resp)")
    case None
    with pe show ?thesis by (simp add: process_response_def parse_chunk_def)
  next
    case (Some m)
    with match_array_clean [of resp] have "m = clean_response resp" by simp
    with pe Some show ?thesis by (simp add: process_response_def parse_chunk_def)
  qed
qed

lemma brackets_no_ws_byte: "no_ws_byte (CHR ''['')" "no_ws_byte (CHR '']'')"
  by (simp_all add: no_ws_byte_def ws_tokens_def)

lemma prefix_before_foreign:
  assumes "c \<notin> set t"
  shows "prefix t (x @ c # y) \<longleftrightarrow> prefix t x"
proof
  assume "prefix t (x @ c # y)"
  then consider "prefix t x" | us where "t = x @ us" "prefix us (c # y)"
    by (auto simp: prefix_append)
  then show "prefix t x"
  proof cases
    case 1
    then show ?thesis .
  next
    case 2
    with assms have "us = []" by (cases us) auto
    with 2 show ?thesis by simp
  qed
next
  assume "prefix t x"
  then show "prefix t (x @ c # y)" by (rule prefix_prefix)
qed

lemma ws_len_before:
  assumes "no_ws_byte c"
  shows "ws_len (x @ c # y) = ws_len x"
proof -
  have "find (\<lambda>t. prefix t (x @ c # y)) ws_tokens = find (\<lambda>t. prefix t x) ws_tokens"
    using assms by (intro find_cong refl) (auto simp: no_ws_byte_def list_all_iff prefix_before_foreign)
  then show ?thesis by (simp add: ws_len_def)
qed

lemma ws_len_end_after:
  assumes "no_ws_byte c"
  shows "ws_len_end (x @ c # y) = ws_len_end y"
proof -
  have "prefix (rev t) (rev (x @ c # y)) \<longleftrightarrow> prefix (rev t) (rev y)" if "t \<in> set ws_tokens" for t
  proof -
    have "c \<notin> set (rev t)" using assms that by (auto simp: no_ws_byte_def list_all_iff)
    then have "prefix (rev t) (rev y @ c # rev x) \<longleftrightarrow> prefix (rev t) (rev y)"
      by (rule prefix_before_foreign)
    then show ?thesis by simp
  qed
  then have "find (\<lambda>t. prefix (rev t) (rev (x @ c # y))) ws_tokens =
             find (\<lambda>t. prefix (rev t) (rev y)) ws_tokens"
    by (intro find_cong refl) auto
  then show ?thesis by (simp add: ws_len_end_def)
qed

lemma skip_ws_before:
  assumes "no_ws_byte c"
  shows "skip_ws (x @ c # y) = skip_ws x @ c # y"
proof (induction x rule: skip_ws.induct)
  case (1 x)
  show ?case
  proof (cases "ws_len x = 0")
    case True
    then have "ws_len (x @ c # y) = 0" using assms by (simp add: ws_len_before)
    then have "skip_ws (x @ c # y) = x @ c # y" by (subst skip_ws.simps) simp
    moreover have "skip_ws x = x" using True by (subst skip_ws.simps) simp
    ultimately show ?thesis by simp
  next
    case False
    have n: "ws_len (x @ c # y) = ws_len x" using assms by (rule ws_len_before)
    have le: "ws_len x \<le> length x" by (rule ws_len_le)
    have "skip_ws (x @ c # y) = skip_ws (drop (ws_len x) (x @ c # y))"
      using False n by (subst skip_ws.simps) simp
    also have "\<dots> = skip_ws (drop (ws_len x) x @ c # y)" using le by simp
    also have "\<dots> = skip_ws (drop (ws_len x) x) @ c # y" using False by (rule "1.IH")
    also have "skip_ws (drop (ws_len x) x) = skip_ws x"
      using False by (subst (2) skip_ws.simps) simp
    finally show ?thesis .
  qed
qed

lemma skip_ws_end_after:
  assumes "no_ws_byte c"
  shows "skip_ws_end (x @ c # y) = x @ c # skip_ws_end y"
proof (induction y rule: skip_ws_end.induct)
  case (1 y)
  show ?case
  proof (cases "ws_len_end y = 0")
    case True
    then have "ws_len_end (x @ c # y) = 0" using assms by (simp add: ws_len_end_after)
    then have "skip_ws_end (x @ c # y) = x @ c # y" by (subst skip_ws_end.simps) simp
    moreover have "skip_ws_end y = y" using True by (subst skip_ws_end.simps) simp
    ultimately show ?thesis by simp
  next
    case False
    have n: "ws_len_end (x @ c # y) = ws_len_end y" using assms by (rule ws_len_end_after)
    have le: "ws_len_end y \<le> length y" by (rule ws_len_end_le)
    have "skip_ws_end (x @ c # y) =
            skip_ws_end (take (length (x @ c # y) - ws_len_end y) (x @ c # y))"
      using False n by (subst skip_ws_end.simps) simp
    also have "take (length (x @ c # y) - ws_len_end y) (x @ c # y) =
                 x @ c # take (length y - ws_len_end y) y"
      using le by (simp add: Suc_diff_le)
    also have "skip_ws_end (x @ c # take (length y - ws_len_end y) y) =
                 x @ c # skip_ws_end (take (length y - ws_len_end y) y)"
      using False by (rule "1.IH")
    also have "skip_ws_end (take (length y - ws_len_end y) y) = skip_ws_end y"
      using False by (subst (2) skip_ws_end.simps) simp
    finally show ?thesis .
  qed
qed

lemma skip_ws_drop: "\<exists>n. skip_ws s = drop n s"
proof (induction s rule: skip_ws.induct)
  case (1 s)
  show ?case
  proof (cases "ws_len s = 0")
    case True
    then have "skip_ws s = drop 0 s" by (subst skip_ws.simps) simp
    then show ?thesis by blast
  next
    case False
    then obtain n where "skip_ws (drop (ws_len s) s) = drop n (drop (ws_len s) s)"
      using "1.IH" by blast
    moreover have "skip_ws s = skip_ws (drop (ws_len s) s)"
      using False by (subst skip_ws.simps) simp
    ultimately have "skip_ws s = drop (n + ws_len s) s" by simp
    then show ?thesis by blast
  qed
qed

lemma skip_ws_end_take: "\<exists>n. skip_ws_end s = take n s"
proof (induction s rule: skip_ws_end.induct)
  case (1 s)
  show ?case
  proof (cases "ws_len_end s = 0")
    case True
    then have "skip_ws_end s = take (length s) s" by (subst skip_ws_end.simps) simp
    then show ?thesis by blast
  next
    case False
    then obtain n where
      "skip_ws_end (take (length s - ws_len_end s) s) = take n (take (length s - ws_len_end s) s)"
      using "1.IH" by blast
    moreover have "skip_ws_end s = skip_ws_end (take (length s - ws_len_end s) s)"
      using False by (subst skip_ws_end.simps) simp
    ultimately have "skip_ws_end s = take (min n (length s - ws_len_end s)) s" by simp
    then show ?thesis by blast
  qed
qed

lemma set_skip_ws: "set (skip_ws s) \<subseteq> set s"
  using skip_ws_drop [of s] by (auto dest: in_set_dropD)

lemma set_skip_ws_end: "set (skip_ws_end s) \<subseteq> set s"
  using skip_ws_end_take [of s] by (auto dest: in_set_takeD)

lemma set_remove_marker: "set (remove_marker m s) \<subseteq> set s"
proof (induction m s rule: remove_marker.induct)
  case (1 m s)
  show ?case
  proof (cases "m = [] \<or> s = []")
    case True
    then show ?thesis by (subst remove_marker.simps) simp
  next
    case False
    show ?thesis
    proof (cases "prefix m s")
      case True
      have "set (remove_marker m (skip_ws (drop (length m) s))) \<subseteq> set (skip_ws (drop (length m) s))"
        using False True by (rule "1.IH"(1))
      also have "\<dots> \<subseteq> set (drop (length m) s)" by (rule set_skip_ws)
      also have "\<dots> \<subseteq> set s" by (rule set_drop_subset)
      finally show ?thesis using False True by (subst remove_marker.simps) simp
    next
      case np: False
      have "set (remove_marker m (tl s)) \<subseteq> set (tl s)" using False np by (rule "1.IH"(2))
      then show ?thesis
        using False np by (subst remove_marker.simps) (cases s, auto)
    qed
  qed
qed

lemma remove_marker_before:
  assumes "no_ws_byte c" and "c \<notin> set m" and "m \<noteq> []"
  shows "remove_marker m (x @ c # y) = remove_marker m x @ c # remove_marker m y"
  using assms(2,3)
proof (induction m x rule: remove_marker.induct)
  case (1 m x)
  note cm = \<open>c \<notin> set m\<close> and ne = \<open>m \<noteq> []\<close>
  show ?case
  proof (cases "x = []")
    case True
    have "\<not> prefix m (c # y)" using cm ne by (cases m) auto
    then have "remove_marker m (c # y) = c # remove_marker m y"
      using ne by (subst remove_marker.simps) simp
    moreover have "remove_marker m [] = []" by (subst remove_marker.simps) simp
    ultimately show ?thesis using True by simp
  next
    case False
    show ?thesis
    proof (cases "prefix m x")
      case True
      then have p: "prefix m (x @ c # y)" by (rule prefix_prefix)
      have le: "length m \<le> length x" using True by (rule prefix_length_le)
      have "remove_marker m (x @ c # y) = remove_marker m (skip_ws (drop (length m) (x @ c # y)))"
        using ne p by (subst remove_marker.simps) simp
      also have "drop (length m) (x @ c # y) = drop (length m) x @ c # y" using le by simp
      also have "skip_ws (drop (length m) x @ c # y) = skip_ws (drop (length m) x) @ c # y"
        using assms(1) by (rule skip_ws_before)
      also have "remove_marker m (skip_ws (drop (length m) x) @ c # y) =
                   remove_marker m (skip_ws (drop (length m) x)) @ c # remove_marker m y"
        using ne False True cm by (intro "1.IH"(1)) auto
      also have "remove_marker m (skip_ws (drop (length m) x)) = remove_marker m x"
        using ne False True by (subst (2) remove_marker.simps) simp
      finally show ?thesis .
    next
      case np: False
      then have "\<not> prefix m (x @ c # y)" using cm by (simp add: prefix_before_foreign)
      then have "remove_marker m (x @ c # y) = hd x # remove_marker m (tl x @ c # y)"
        using ne False by (subst remove_marker.simps) simp
      also have "remove_marker m (tl x @ c # y) = remove_marker m (tl x) @ c # remove_marker m y"
        using ne False np cm by (intro "1.IH"(2)) auto
      also have "hd x # remove_marker m (tl x) @ c # remove_marker m y =
                   remove_marker m x @ c # remove_marker m y"
        using ne False np by (subst (2) remove_marker.simps) simp
      finally show ?thesis .
    qed
  qed
qed

lemma remove_marker_no_occurrence:
  assumes "\<not> sublist m s"
  shows "remove_marker m s = s"
  using assms
proof (induction s)
  case Nil
  then show ?case by (subst remove_marker.simps) simp
next
  case (Cons a s)
  have "\<not> prefix m (a # s)" using Cons.prems by (auto dest: prefix_imp_sublist)
  moreover have "m \<noteq> []" using Cons.prems by auto
  ultimately have "remove_marker m (a # s) = a # remove_marker m s"
    by (subst remove_marker.simps) simp
  moreover have "\<not> sublist m s" using Cons.prems by (simp add: sublist_Cons_right)
  ultimately show ?case using Cons.IH by simp
qed

lemma strip_fences_around:
  assumes "\<not> sublist ''```'' mid"
  shows "\<exists>p' q'. strip_fences (p @ CHR ''['' # mid @ CHR '']'' # q) = p' @ CHR ''['' # mid @ CHR '']'' # q' \<and>
           set p' \<subseteq> set p \<and> set q' \<subseteq> set q"
proof -
  have r: "remove_marker m (x @ CHR ''['' # mid @ CHR '']'' # y) =
           remove_marker m x @ CHR ''['' # mid @ CHR '']'' # remove_marker m y"
    if "m = ''```json'' \<or> m = ''```''" for m x y
  proof -
    have m: "CHR ''['' \<notin> set m" "CHR '']'' \<notin> set m" "m \<noteq> []"
      using that by auto
    have "sublist ''```'' m" using that by (auto intro: prefix_imp_sublist)
    then have nm: "\<not> sublist m mid" using assms by (blast intro: sublist_order.order_trans)
    have "remove_marker m (x @ CHR ''['' # (mid @ CHR '']'' # y)) =
            remove_marker m x @ CHR ''['' # remove_marker m (mid @ CHR '']'' # y)"
      using brackets_no_ws_byte(1) m(1,3) by (rule remove_marker_before)
    also have "remove_marker m (mid @ CHR '']'' # y) = remove_marker m mid @ CHR '']'' # remove_marker m y"
      using brackets_no_ws_byte(2) m(2,3) by (rule remove_marker_before)
    also have "remove_marker m mid = mid"
      using nm by (rule remove_marker_no_occurrence)
    finally show ?thesis by simp
  qed
  let ?p' = "remove_marker ''```'' (remove_marker ''```json'' p)"
  let ?q' = "remove_marker ''```'' (remove_marker ''```json'' q)"
  have "strip_fences (p @ CHR ''['' # mid @ CHR '']'' # q) = ?p' @ CHR ''['' # mid @ CHR '']'' # ?q'"
    by (simp add: strip_fences_def r)
  moreover have "set ?p' \<subseteq> set p" "set ?q' \<subseteq> set q"
    using set_remove_marker by (blast intro: subset_trans)+
  ultimately show ?thesis by blast
qed

lemma trim_around:
  "trim (p @ CHR ''['' # mid @ CHR '']'' # q) = skip_ws p @ CHR ''['' # mid @ CHR '']'' # skip_ws_end q"
proof -
  have "skip_ws (p @ CHR ''['' # (mid @ CHR '']'' # q)) = skip_ws p @ CHR ''['' # (mid @ CHR '']'' # q)"
    using brackets_no_ws_byte(1) by (rule skip_ws_before)
  moreover have "skip_ws_end ((skip_ws p @ CHR ''['' # mid) @ CHR '']'' # q) =
                 (skip_ws p @ CHR ''['' # mid) @ CHR '']'' # skip_ws_end q"
    using brackets_no_ws_byte(2) by (rule skip_ws_end_after)
  ultimately show ?thesis by (simp add: trim_def)
qed

lemma clean_response_isolates:
  assumes "CHR ''['' \<notin> set p" and "CHR '']'' \<notin> set q" and "\<not> sublist ''```'' mid"
  shows "clean_response (p @ CHR ''['' # mid @ CHR '']'' # q) = CHR ''['' # mid @ [CHR '']'']"
proof -
  obtain p' q' where s: "strip_fences (skip_ws p @ CHR ''['' # mid @ CHR '']'' # skip_ws_end q) =
        p' @ CHR ''['' # mid @ CHR '']'' # q'"
    and p': "set p' \<subseteq> set (skip_ws p)" and q': "set q' \<subseteq> set (skip_ws_end q)"
    using strip_fences_around [OF assms(3)] by blast
  have "CHR ''['' \<notin> set p'" using p' set_skip_ws [of p] assms(1) by blast
  moreover have "CHR '']'' \<notin> set q'" using q' set_skip_ws_end [of q] assms(2) by blast
  ultimately have "slice_brackets (p' @ CHR ''['' # mid @ CHR '']'' # q') = CHR ''['' # mid @ [CHR '']'']"
    by (rule slice_brackets_found)
  then show ?thesis by (simp add: clean_response_def trim_around s)
qed

lemma indexOf_first: "indexOf s c = Some i \<Longrightarrow> k < length s \<Longrightarrow> s ! k = c \<Longrightarrow> i \<le> k"
proof (rule ccontr)
  assume i: "indexOf s c = Some i" and k: "k < length s" "s ! k = c" and "\<not> i \<le> k"
  then have "k < i" by simp
  moreover have "i < length s" using indexOf_Some [OF i] by simp
  ultimately have "s ! k \<in> set (take i s)" using k by (auto simp: in_set_conv_nth intro!: exI [of _ k])
  with indexOf_Some [OF i] k show False by simp
qed

lemma lastIndexOf_last: "lastIndexOf s c = Some j \<Longrightarrow> k < length s \<Longrightarrow> s ! k = c \<Longrightarrow> k \<le> j"
proof (rule ccontr)
  assume j: "lastIndexOf s c = Some j" and k: "k < length s" "s ! k = c" and "\<not> k \<le> j"
  then have "j < k" by simp
  then have "s ! k = drop (Suc j) s ! (k - Suc j)" using k by simp
  moreover have "k - Suc j < length (drop (Suc j) s)" using \<open>j < k\<close> k by simp
  ultimately have "s ! k \<in> set (drop (Suc j) s)" by (metis nth_mem)
  with lastIndexOf_Some [OF j] k show False by simp
qed

lemma slice_brackets_cases:
  "(\<exists>p mid q. s = p @ CHR ''['' # mid @ CHR '']'' # q \<and> CHR ''['' \<notin> set p \<and> CHR '']'' \<notin> set q \<and>
       slice_brackets s = CHR ''['' # mid @ [CHR '']'']) \<or>
   ((\<forall>p mid q. s \<noteq> p @ CHR ''['' # mid @ CHR '']'' # q) \<and> slice_brackets s = s)"
proof (cases "\<exists>p mid q. s = p @ CHR ''['' # mid @ CHR '']'' # q")
  case False
  then have "match_array s = None"
  proof -
    have False if "match_array s = Some m" for m
    proof -
      from that obtain i j where i: "indexOf s (CHR ''['') = Some i" and j: "lastIndexOf s (CHR '']'') = Some j"
        and ij: "i < j"
        by (auto simp: match_array_brackets split: option.splits if_splits)
      from indexOf_Some [OF i] lastIndexOf_Some [OF j]
      have b: "i < length s" "s ! i = CHR ''[''" "j < length s" "s ! j = CHR '']''" by auto
      have "s = take i s @ s ! i # drop (Suc i) s" using b(1) by (rule id_take_nth_drop)
      moreover have "drop (Suc i) s = take (j - Suc i) (drop (Suc i) s) @ drop (Suc i) s ! (j - Suc i) #
                       drop (Suc (j - Suc i)) (drop (Suc i) s)"
        using b(3) ij by (intro id_take_nth_drop) simp
      moreover have "drop (Suc i) s ! (j - Suc i) = CHR '']''" using b ij by simp
      ultimately have "s = take i s @ CHR ''['' # take (j - Suc i) (drop (Suc i) s) @ CHR '']'' #
                       drop (Suc (j - Suc i)) (drop (Suc i) s)"
        using b(2) by simp
      with False show False by blast
    qed
    then show ?thesis by (cases "match_array s") auto
  qed
  with False show ?thesis by (simp add: slice_brackets_match)
next
  case True
  then obtain p0 mid0 q0 where s0: "s = p0 @ CHR ''['' # mid0 @ CHR '']'' # q0" by blast
  then have "CHR ''['' \<in> set s" "CHR '']'' \<in> set s" by auto
  then obtain i j where i: "indexOf s (CHR ''['') = Some i" and j: "lastIndexOf s (CHR '']'') = Some j"
    using indexOf_None [of s "CHR ''[''"] lastIndexOf_None [of s "CHR '']''"] by auto
  from indexOf_Some [OF i] lastIndexOf_Some [OF j]
  have b: "i < length s" "s ! i = CHR ''[''" "j < length s" "s ! j = CHR '']''"
    "CHR ''['' \<notin> set (take i s)" "CHR '']'' \<notin> set (drop (Suc j) s)" by auto
  have "i \<le> length p0"
    using s0 by (intro indexOf_first [OF i]) (simp_all add: nth_append)
  moreover have "length p0 + Suc (length mid0) \<le> j"
  proof (rule lastIndexOf_last [OF j])
    show "length p0 + Suc (length mid0) < length s" using s0 by simp
    have "s = (p0 @ CHR ''['' # mid0) @ CHR '']'' # q0" using s0 by simp
    then have "s ! length (p0 @ CHR ''['' # mid0) = CHR '']''" by (metis nth_append_length)
    then show "s ! (length p0 + Suc (length mid0)) = CHR '']''" by simp
  qed
  ultimately have ij: "i < j" by simp
  define mid where "mid = take (j - Suc i) (drop (Suc i) s)"
  have "s = take i s @ s ! i # drop (Suc i) s" using b(1) by (rule id_take_nth_drop)
  moreover have "drop (Suc i) s = take (j - Suc i) (drop (Suc i) s) @ drop (Suc i) s ! (j - Suc i) #
                   drop (Suc (j - Suc i)) (drop (Suc i) s)"
    using b(3) ij by (intro id_take_nth_drop) simp
  moreover have "drop (Suc i) s ! (j - Suc i) = CHR '']''" using b ij by simp
  moreover have "drop (Suc (j - Suc i)) (drop (Suc i) s) = drop (Suc j) s" using ij by simp
  ultimately have s: "s = take i s @ CHR ''['' # mid @ CHR '']'' # drop (Suc j) s"
    using b(2) by (simp add: mid_def)
  have "slice_brackets (take i s @ CHR ''['' # mid @ CHR '']'' # drop (Suc j) s) = CHR ''['' # mid @ [CHR '']'']"
    using b(5,6) by (rule slice_brackets_found)
  then have "slice_brackets s = CHR ''['' # mid @ [CHR '']'']" using s by simp
  with s b(5,6) show ?thesis by blast
qed

text \<open>
  C5, as stated, fails in its second part: a valid JSON array in code fences with prose
  around it is not always isolated. With a bracket in the prose before the fence, the
  slice starts at that bracket; the text handed to \<open>JSON.parse\<close>, both times, is not the
  array, and the window fails.
\<close>

theorem fenced_array_counterexample:
  "JSON_parse ''[]'' = Inr (JArr []) \<and>
   clean_response bracket_prose_text = ''[draft]:'' @ nl @ ''[]'' \<and>
   parse_chunk JSON_parse 1 7 (clean_response bracket_prose_text) =
     ([''[draft]:'' @ nl @ ''[]'', ''[draft]:'' @ nl @ ''[]''],
      Inl (Error ''JSON parsing failed for days 1-7: Unexpected token in JSON''))"
  unfolding bracket_prose_text_def by code_simp

text \<open>
  C5, amended. For every response the text handed to \<open>JSON.parse\<close> is the response
  trimmed, stripped of its code-fence markers (with the white space behind each) and then
  cut down to the part from the first \<open>[\<close> to the last \<open>]\<close>, when a \<open>[\<close> stands before
  a \<open>]\<close>, and left as it is otherwise. When parsing succeeds \<open>JSON.parse\<close> is called
  once. When it fails, the regular expression is tried once on the same text: with no match
  the window fails, with a match \<open>JSON.parse\<close> is called once more, on the match, and its
  outcome decides. (On the cleaned text the match, when there is one, is the cleaned text
  itself.) For a response that is an array \<open>[ ... ]\<close> in code fences (opened by either
  marker) with prose around it,
  extraction isolates the array and gives what \<open>JSON.parse\<close> makes of it, provided the
  text before the array holds no \<open>[\<close>, the text behind it no \<open>]\<close>, and the array no
  code-fence marker (three backquotes in a row).
\<close>

theorem extraction_steps:
  "clean_response resp = slice_brackets (strip_fences (trim resp)) \<and>
   ((\<exists>p mid q. strip_fences (trim resp) = p @ CHR ''['' # mid @ CHR '']'' # q \<and>
       CHR ''['' \<notin> set p \<and> CHR '']'' \<notin> set q \<and> clean_response resp = CHR ''['' # mid @ [CHR '']'']) \<or>
    ((\<forall>p mid q. strip_fences (trim resp) \<noteq> p @ CHR ''['' # mid @ CHR '']'' # q) \<and>
       clean_response resp = strip_fences (trim resp))) \<and>
   (\<not> isl (parse cleaned) \<longrightarrow> parse_chunk parse start end cleaned = ([cleaned], parse cleaned)) \<and>
   (isl (parse cleaned) \<and> match_array cleaned = None \<longrightarrow>
      parse_chunk parse start end cleaned =
        ([cleaned], Inl (Error (''No valid JSON array found in response for days '' @
                                 show_int start @ ''-'' @ show_int end)))) \<and>
   (isl (parse cleaned) \<and> match_array cleaned = Some jsonMatch \<longrightarrow>
      fst (parse_chunk parse start end cleaned) = [cleaned, jsonMatch] \<and>
      (\<not> isl (parse jsonMatch) \<longrightarrow> snd (parse_chunk parse start end cleaned) = parse jsonMatch) \<and>
      (isl (parse jsonMatch) \<longrightarrow>
         snd (parse_chunk parse start end cleaned) =
           Inl (Error (''JSON parsing failed for days '' @ show_int start @ ''-'' @ show_int end @
                       '': '' @ message (projl (parse cleaned)))))) \<and>
   (match_array (clean_response resp) = None \<or>
    match_array (clean_response resp) = Some (clean_response resp)) \<and>
   (resp = before @ fence @ gap1 @ CHR ''['' # inner @ CHR '']'' # gap2 @ ''```'' @ after \<and>
    (fence = ''```json'' \<or> fence = ''```'') \<and>
    CHR ''['' \<notin> set (before @ gap1) \<and> CHR '']'' \<notin> set (gap2 @ after) \<and> \<not> sublist ''```'' inner \<longrightarrow>
      clean_response resp = CHR ''['' # inner @ [CHR '']''] \<and>
      (\<not> isl (parse (CHR ''['' # inner @ [CHR '']''])) \<longrightarrow>
         parse_chunk parse start end (clean_response resp) =
           ([CHR ''['' # inner @ [CHR '']'']], parse (CHR ''['' # inner @ [CHR '']'']))))"
proof -
  have a: "clean_response resp = slice_brackets (strip_fences (trim resp))"
    by (simp add: clean_response_def)
  have b: "(\<exists>p mid q. strip_fences (trim resp) = p @ CHR ''['' # mid @ CHR '']'' # q \<and>
       CHR ''['' \<notin> set p \<and> CHR '']'' \<notin> set q \<and> clean_response resp = CHR ''['' # mid @ [CHR '']'']) \<or>
    ((\<forall>p mid q. strip_fences (trim resp) \<noteq> p @ CHR ''['' # mid @ CHR '']'' # q) \<and>
       clean_response resp = strip_fences (trim resp))"
    unfolding a by (rule slice_brackets_cases)
  have c: "parse_chunk parse start end cleaned = ([cleaned], parse cleaned)" if "\<not> isl (parse cleaned)"
    using that by (cases "parse cleaned") (simp_all add: parse_chunk_def)
  have d: "parse_chunk parse start end cleaned =
        ([cleaned], Inl (Error (''No valid JSON array found in response for days '' @
                                 show_int start @ ''-'' @ show_int end)))"
    if "isl (parse cleaned) \<and> match_array cleaned = None"
    using that by (cases "parse cleaned") (simp_all add: parse_chunk_def)
  have e: "fst (parse_chunk parse start end cleaned) = [cleaned, jsonMatch] \<and>
      (\<not> isl (parse jsonMatch) \<longrightarrow> snd (parse_chunk parse start end cleaned) = parse jsonMatch) \<and>
      (isl (parse jsonMatch) \<longrightarrow>
         snd (parse_chunk parse start end cleaned) =
           Inl (Error (''JSON parsing failed for days '' @ show_int start @ ''-'' @ show_int end @
                       '': '' @ message (projl (parse cleaned)))))"
    if "isl (parse cleaned) \<and> match_array cleaned = Some jsonMatch"
    using that by (cases "parse cleaned"; cases "parse jsonMatch") (simp_all add: parse_chunk_def)
  have f: "match_array (clean_response resp) = None \<or>
    match_array (clean_response resp) = Some (clean_response resp)"
    by (rule match_array_clean)
  have g: "clean_response resp = CHR ''['' # inner @ [CHR '']''] \<and>
      (\<not> isl (parse (CHR ''['' # inner @ [CHR '']''])) \<longrightarrow>
         parse_chunk parse start end (clean_response resp) =
           ([CHR ''['' # inner @ [CHR '']'']], parse (CHR ''['' # inner @ [CHR '']''])))"
    if h: "resp = before @ fence @ gap1 @ CHR ''['' # inner @ CHR '']'' # gap2 @ ''```'' @ after \<and>
      (fence = ''```json'' \<or> fence = ''```'') \<and>
      CHR ''['' \<notin> set (before @ gap1) \<and> CHR '']'' \<notin> set (gap2 @ after) \<and> \<not> sublist ''```'' inner"
  proof -
    have "clean_response ((before @ fence @ gap1) @ CHR ''['' # inner @ CHR '']'' # (gap2 @ ''```'' @ after)) =
            CHR ''['' # inner @ [CHR '']'']"
      using h by (intro clean_response_isolates) auto
    then have i: "clean_response resp = CHR ''['' # inner @ [CHR '']'']" using h by simp
    show ?thesis
      unfolding i
      by (cases "parse (CHR ''['' # inner @ [CHR '']''])") (simp_all add: parse_chunk_def)
  qed
  show ?thesis
    apply (intro conjI impI)
    subgoal by (rule a)
    subgoal by (rule b)
    subgoal by (rule c)
    subgoal by (rule d)
    subgoal using e by blast
    subgoal using e by blast
    subgoal using e by blast
    subgoal by (rule f)
    subgoal using g by blast
    subgoal using g by blast
    done
qed

theorem extraction_steps_witness:
  "clean_response fenced_text = one_day_text \<and>
   parse_chunk JSON_parse 1 7 (clean_response fenced_text) = ([one_day_text], Inr (JArr [one_day]))"
proof -
  have p: "JSON_parse (CHR ''['' # one_day_object_text @ [CHR '']'']) = Inr (JArr [one_day])"
    unfolding one_day_object_text_def one_day_def by code_simp
  have h: "fenced_text =
      (''Sure! Here is your itinerary:'' @ nl) @ ''```json'' @ nl @ CHR ''['' # one_day_object_text @
        CHR '']'' # nl @ ''```'' @ (nl @ ''Enjoy your trip.'') \<and>
      (''```json'' = ''```json'' \<or> ''```json'' = ''```'') \<and>
      CHR ''['' \<notin> set ((''Sure! Here is your itinerary:'' @ nl) @ nl) \<and>
      CHR '']'' \<notin> set (nl @ (nl @ ''Enjoy your trip.'')) \<and>
      \<not> sublist ''```'' one_day_object_text"
  proof -
    have "\<not> sublist ''```'' one_day_object_text"
      unfolding one_day_object_text_def by code_simp
    then show ?thesis by (simp add: fenced_text_def one_day_text_def nl_def)
  qed
  note fenced = extraction_steps [of fenced_text JSON_parse _ 1 7 _ "''Sure! Here is your itinerary:'' @ nl"
      "''```json''" nl
      one_day_object_text nl "nl @ ''Enjoy your trip.''", THEN conjunct2, THEN conjunct2, THEN conjunct2,
      THEN conjunct2, THEN conjunct2, THEN conjunct2, rule_format, OF h]
  have c: "clean_response fenced_text = CHR ''['' # one_day_object_text @ [CHR '']'']"
    using fenced by (rule conjunct1)
  have q: "parse_chunk JSON_parse 1 7 (clean_response fenced_text) =
           ([CHR ''['' # one_day_object_text @ [CHR '']'']], Inr (JArr [one_day]))"
    using fenced [THEN conjunct2] p by simp
  show ?thesis
    unfolding one_day_text_def using c q by (intro conjI)
qed

section \<open>Properties of the validation\<close>

lemma get_prop_field: "v \<noteq> JNull \<Longrightarrow> get_prop (Some v) k = Inr (field v k)"
  by (cases v) (simp_all add: field_def)

lemma truthy_not_null: "truthy (Some v) \<Longrightarrow> v \<noteq> JNull"
  by (cases v) simp_all

lemma place_invalid_spec:
  assumes "place \<noteq> JNull"
  shows "place_invalid place = Inr (\<not> spec_valid_place place)"
proof (cases "field place ''location''")
  case None
  then show ?thesis
    using assms by (simp add: place_invalid_def get_prop_field spec_valid_place_def)
next
  case (Some location)
  show ?thesis
  proof (cases "truthy (Some location)")
    case False
    with Some show ?thesis
      using assms by (simp add: place_invalid_def get_prop_field spec_valid_place_def)
  next
    case True
    then have "location \<noteq> JNull" by (rule truthy_not_null)
    with Some True show ?thesis
      using assms by (auto simp: place_invalid_def get_prop_field spec_valid_place_def)
  qed
qed

lemma day_invalid_spec:
  assumes "day \<noteq> JNull"
  shows "day_invalid day = Inr (\<not> (truthy (field day ''title'') \<and> isArray (field day ''itinerary'')))"
proof -
  have "isArray v \<Longrightarrow> truthy v" for v
    by (cases v rule: isArray.cases) simp_all
  then show ?thesis
    using assms by (auto simp: day_invalid_def get_prop_field)
qed

lemma null_place_raises: "\<exists>msg. place_invalid JNull = Inl (TypeError msg)"
  by (simp add: place_invalid_def)

lemma null_day_raises: "\<exists>msg. day_invalid JNull = Inl (TypeError msg)"
  by (simp add: day_invalid_def)

lemma spec_valid_place_not_null: "spec_valid_place place \<Longrightarrow> place \<noteq> JNull"
  by (auto simp: spec_valid_place_def field_def)

lemma spec_valid_day_not_null: "spec_valid_day day \<Longrightarrow> day \<noteq> JNull"
  by (auto simp: spec_valid_day_def field_def)

lemma validate_places_iff:
  "validate_places start end index placeIndex places = Inr () \<longleftrightarrow> list_all spec_valid_place places"
proof (induction places arbitrary: placeIndex)
  case Nil
  then show ?case by simp
next
  case (Cons place places)
  show ?case
  proof (cases "place = JNull")
    case True
    then show ?thesis by (simp add: place_invalid_def spec_valid_place_def field_def)
  next
    case False
    then show ?thesis
      by (cases "spec_valid_place place") (simp_all add: place_invalid_spec Cons.IH)
  qed
qed

lemma validate_places_first:
  assumes "list_all spec_valid_place good" and "place \<noteq> JNull" and "\<not> spec_valid_place place"
  shows "validate_places start end index placeIndex (good @ place # rest) =
           Inl (Error (invalid_place_message (placeIndex + length good) index start end))"
  using assms(1)
proof (induction good arbitrary: placeIndex)
  case Nil
  then show ?case using assms(2,3) by (simp add: place_invalid_spec)
next
  case (Cons g good)
  then have "g \<noteq> JNull" by (auto dest: spec_valid_place_not_null)
  with Cons show ?case by (simp add: place_invalid_spec)
qed

lemma validate_day_step:
  assumes "spec_valid_day day"
  shows "validate_days start end index (day # rest) = validate_days start end (Suc index) rest"
proof -
  from assms obtain places where p: "field day ''itinerary'' = Some (JArr places)"
    and ps: "list_all spec_valid_place places" and t: "truthy (field day ''title'')"
    by (auto simp: spec_valid_day_def split: option.splits json.splits)
  have n: "day \<noteq> JNull" using assms by (rule spec_valid_day_not_null)
  have "validate_places start end index 0 places = Inr ()" using ps by (simp add: validate_places_iff)
  then show ?thesis using n p t by (simp add: day_invalid_spec get_prop_field)
qed

lemma validate_days_iff:
  "validate_days start end index days = Inr () \<longleftrightarrow> list_all spec_valid_day days"
proof (induction days arbitrary: index)
  case Nil
  then show ?case by simp
next
  case (Cons day days)
  show ?case
  proof (cases "spec_valid_day day")
    case True
    then show ?thesis by (simp add: validate_day_step Cons.IH del: validate_days.simps)
  next
    case False
    show ?thesis
    proof (cases "day = JNull")
      case True
      then show ?thesis using False by (simp add: day_invalid_def)
    next
      case n: False
      show ?thesis
      proof (cases "truthy (field day ''title'') \<and> isArray (field day ''itinerary'')")
        case False
        then show ?thesis using n \<open>\<not> spec_valid_day day\<close> by (simp add: day_invalid_spec)
      next
        case True
        then obtain places where p: "field day ''itinerary'' = Some (JArr places)"
          by (cases "field day ''itinerary''" rule: isArray.cases) auto
        with True \<open>\<not> spec_valid_day day\<close> have "\<not> list_all spec_valid_place places"
          by (simp add: spec_valid_day_def)
        then have "validate_places start end index 0 places \<noteq> Inr ()"
          by (simp add: validate_places_iff)
        then show ?thesis
          using n True p \<open>\<not> spec_valid_day day\<close>
          by (cases "validate_places start end index 0 places") (simp_all add: day_invalid_spec get_prop_field)
      qed
    qed
  qed
qed

lemma validate_days_skip:
  assumes "list_all spec_valid_day good"
  shows "validate_days start end index (good @ rest) = validate_days start end (index + length good) rest"
  using assms by (induction good arbitrary: index) (simp_all add: validate_day_step del: validate_days.simps)

text \<open>
  What lines 117 to 136 accept, and the errors they raise on a payload without a \<open>null\<close> in
  the place of a day or of an entry. A payload is accepted exactly when it is an array in
  which every element has a truthy (so non-empty) title and an array-typed itinerary, and
  every itinerary entry has a truthy name, a truthy description and a truthy location with
  numeric \<open>lat\<close> and \<open>lng\<close>. A payload that is no array (and not \<open>null\<close>) raises an error
  that names the window and the type of the payload; the first offending day raises an error
  that names the window and the index of the day; the first offending entry of a day raises
  an error that names the window, the index of the day and the index of the entry.
\<close>

lemma validation_accepts_iff:
  "(check_chunk start end chunk = Inr days \<longleftrightarrow> chunk = JArr days \<and> spec_valid_chunk chunk) \<and>
   (\<not> spec_valid_chunk chunk \<longrightarrow> isl (check_chunk start end chunk)) \<and>
   (chunk \<noteq> JNull \<and> (\<forall>ds. chunk \<noteq> JArr ds) \<longrightarrow>
      check_chunk start end chunk = Inl (Error (not_array_message chunk start end))) \<and>
   (chunk = JArr (good @ day # rest) \<and> list_all spec_valid_day good \<and> day \<noteq> JNull \<and>
    \<not> (truthy (field day ''title'') \<and> isArray (field day ''itinerary'')) \<longrightarrow>
      check_chunk start end chunk = Inl (Error (invalid_day_message (length good) start end)) \<and>
      names_index (invalid_day_message (length good) start end)) \<and>
   (chunk = JArr (good @ day # rest) \<and> list_all spec_valid_day good \<and>
    truthy (field day ''title'') \<and> field day ''itinerary'' = Some (JArr (goodp @ place # restp)) \<and>
    list_all spec_valid_place goodp \<and> place \<noteq> JNull \<and> \<not> spec_valid_place place \<longrightarrow>
      check_chunk start end chunk =
        Inl (Error (invalid_place_message (length goodp) (length good) start end)) \<and>
      names_index (invalid_place_message (length goodp) (length good) start end))"
proof -
  have a: "validate_chunk start end chunk = Inr days \<longleftrightarrow> chunk = JArr days \<and> spec_valid_chunk chunk"
    for days
  proof (cases chunk)
    case (JArr ds)
    have "validate_days start end 0 ds = Inr () \<longleftrightarrow> list_all spec_valid_day ds"
      by (rule validate_days_iff)
    then show ?thesis
      using JArr
      by (cases "validate_days start end 0 ds") (auto simp: validate_chunk_def spec_valid_chunk_def)
  qed (simp_all add: validate_chunk_def spec_valid_chunk_def)
  have b: "isl (validate_chunk start end chunk)" if "\<not> spec_valid_chunk chunk"
  proof (cases "validate_chunk start end chunk")
    case (Inl ex)
    then show ?thesis by simp
  next
    case (Inr ds)
    with a [of ds] that show ?thesis
      by (cases chunk) (auto simp: validate_chunk_def split: sum.splits)
  qed
  have c: "validate_chunk start end chunk = Inl (Error (not_array_message chunk start end))"
    if "\<forall>ds. chunk \<noteq> JArr ds"
    using that by (cases chunk) (simp_all add: validate_chunk_def)
  have d: "validate_chunk start end chunk = Inl (Error (invalid_day_message (length good) start end))"
    if "chunk = JArr (good @ day # rest)" and "list_all spec_valid_day good" and "day \<noteq> JNull"
      and "\<not> (truthy (field day ''title'') \<and> isArray (field day ''itinerary''))"
  proof -
    have "validate_days start end 0 (good @ day # rest) = validate_days start end (0 + length good) (day # rest)"
      using that(2) by (rule validate_days_skip)
    also have "\<dots> = Inl (Error (invalid_day_message (length good) start end))"
      using that(3,4) by (simp add: day_invalid_spec)
    finally show ?thesis using that(1) by (simp add: validate_chunk_def)
  qed
  have e: "validate_chunk start end chunk =
        Inl (Error (invalid_place_message (length goodp) (length good) start end))"
    if "chunk = JArr (good @ day # rest)" and "list_all spec_valid_day good"
      and "truthy (field day ''title'')" and "field day ''itinerary'' = Some (JArr (goodp @ place # restp))"
      and "list_all spec_valid_place goodp" and "place \<noteq> JNull" and "\<not> spec_valid_place place"
  proof -
    have n: "day \<noteq> JNull" using that(3) by (auto simp: field_def)
    have "validate_places start end (length good) 0 (goodp @ place # restp) =
            Inl (Error (invalid_place_message (0 + length goodp) (length good) start end))"
      using that(5,6,7) by (rule validate_places_first)
    then have "validate_days start end (length good) (day # rest) =
            Inl (Error (invalid_place_message (length goodp) (length good) start end))"
      using n that(3,4) by (simp add: day_invalid_spec get_prop_field)
    moreover have "validate_days start end 0 (good @ day # rest) =
            validate_days start end (0 + length good) (day # rest)"
      using that(2) by (rule validate_days_skip)
    ultimately show ?thesis using that(1) by (simp add: validate_chunk_def)
  qed
  have f: "names_index (invalid_day_message i start end)" "names_index (invalid_place_message j i start end)"
    for i j
    by (simp_all add: names_index_def invalid_day_message_def invalid_place_message_def)
  have k: "check_chunk start end chunk = validate_chunk start end chunk" if "chunk \<noteq> JNull"
    using that by (simp add: check_chunk_def read_length_def)
  have z: "check_chunk start end JNull = Inl (TypeError (null_property_message ''null'' ''length''))"
    by (simp add: check_chunk_def read_length_def)
  show ?thesis
    apply (intro conjI impI)
    subgoal using a k z by (cases "chunk = JNull") (auto simp: spec_valid_chunk_def)
    subgoal using b k z by (cases "chunk = JNull") auto
    subgoal using c k by simp
    subgoal using d k by auto
    subgoal by (rule f)
    subgoal using e k by auto
    subgoal by (rule f)
    done
qed

lemma validation_examples:
  "check_chunk 1 7 (JArr [one_day]) = Inr [one_day] \<and>
   check_chunk 1 7 (JStr ''oops'') = Inl (Error ''Expected array but got string for days 1-7'') \<and>
   check_chunk 1 7 (JArr [one_day, JObj [(''title'', JStr [])]]) =
     Inl (Error ''Invalid day structure at index 1 in chunk 1-7'') \<and>
   check_chunk 8 10
     (JArr [one_day,
            JObj [(''title'', JStr ''Day 9''),
                  (''itinerary'', JArr [JObj [(''name'', JStr ''Gion'')]])]]) =
     Inl (Error ''Invalid place structure at place 0 in day 1 of chunk 8-10'')"
proof -
  have v: "spec_valid_day one_day"
    by (simp add: spec_valid_day_def spec_valid_place_def field_def one_day_def)
  have m: "not_array_message (JStr ''oops'') 1 7 = ''Expected array but got string for days 1-7''"
    "invalid_day_message 1 1 7 = ''Invalid day structure at index 1 in chunk 1-7''"
    "invalid_place_message 0 1 8 10 = ''Invalid place structure at place 0 in day 1 of chunk 8-10''"
    by (simp_all add: not_array_message_def invalid_day_message_def invalid_place_message_def
          show_int_def show_nat.simps digit_char_def)
  have 1: "check_chunk 1 7 (JArr [one_day]) = Inr [one_day]"
    using validation_accepts_iff [of 1 7 "JArr [one_day]" "[one_day]"] v
    by (simp add: spec_valid_chunk_def)
  have 2: "check_chunk 1 7 (JStr ''oops'') = Inl (Error ''Expected array but got string for days 1-7'')"
    using validation_accepts_iff [of 1 7 "JStr ''oops''"] m by simp
  have 3: "check_chunk 1 7 (JArr [one_day, JObj [(''title'', JStr [])]]) =
     Inl (Error ''Invalid day structure at index 1 in chunk 1-7'')"
    using validation_accepts_iff [of 1 7 "JArr [one_day, JObj [(''title'', JStr [])]]" _ "[one_day]"
        "JObj [(''title'', JStr [])]" "[]"] v m
    by (simp add: field_def)
  have 4: "check_chunk 8 10
     (JArr [one_day,
            JObj [(''title'', JStr ''Day 9''),
                  (''itinerary'', JArr [JObj [(''name'', JStr ''Gion'')]])]]) =
     Inl (Error ''Invalid place structure at place 0 in day 1 of chunk 8-10'')"
    using validation_accepts_iff [of 8 10
        "JArr [one_day, JObj [(''title'', JStr ''Day 9''),
                  (''itinerary'', JArr [JObj [(''name'', JStr ''Gion'')]])]]" _ "[one_day]"
        "JObj [(''title'', JStr ''Day 9''), (''itinerary'', JArr [JObj [(''name'', JStr ''Gion'')]])]" "[]"
        "[]" "JObj [(''name'', JStr ''Gion'')]" "[]"] v m
    by (simp add: field_def spec_valid_place_def)
  from 1 2 3 4 show ?thesis by simp
qed

section \<open>Properties of the generator\<close>

lemma windows_loop_run:
  "windows_loop g p c b days start sent full = run_windows g p c b (windows days start) sent full"
proof (induction g p c b days start sent full rule: windows_loop.induct)
  case (1 g p c b days start sent full)
  show ?case
  proof (cases "start \<le> days")
    case False
    then show ?thesis by (simp add: windows_loop.simps windows.simps)
  next
    case True
    define e where "e = min (start + CHUNK_SIZE - 1) days"
    have w: "windows days start = (start, e) # windows days (start + CHUNK_SIZE)"
      using True by (subst windows.simps) (simp add: e_def)
    show ?thesis
    proof (cases "g (length sent) (prompt c b start e)")
      case (Inl ex)
      then show ?thesis
        using True by (subst windows_loop.simps) (simp add: w window_outcome_def window_prompt_def e_def [symmetric] Let_def)
    next
      case (Inr resp)
      show ?thesis
      proof (cases "process_response p start e resp")
        case (Inl ex)
        then show ?thesis
          using True Inr
          by (subst windows_loop.simps) (simp add: w window_outcome_def window_prompt_def e_def [symmetric] Let_def)
      next
        case r: (Inr chunk)
        have "windows_loop g p c b days (start + CHUNK_SIZE) (sent @ [prompt c b start e]) (full @ chunk)
              = run_windows g p c b (windows days (start + CHUNK_SIZE)) (sent @ [prompt c b start e]) (full @ chunk)"
          using "1.IH" [OF True e_def refl Inr r] .
        then show ?thesis
          using True Inr r
          by (subst windows_loop.simps) (simp add: w window_outcome_def window_prompt_def e_def [symmetric] Let_def)
      qed
    qed
  qed
qed

lemma run_windows_success:
  "(\<And>i. i < length ws \<Longrightarrow> window_outcome g p c b (length sent + i) (ws ! i) = Inr (chunks i)) \<Longrightarrow>
   run_windows g p c b ws sent full =
     (sent @ map (window_prompt c b) ws, Inr (full @ concat (map chunks [0..<length ws])))"
proof (induction ws arbitrary: sent full chunks)
  case Nil
  then show ?case by simp
next
  case (Cons w ws)
  have h0: "window_outcome g p c b (length sent) w = Inr (chunks 0)"
    using Cons.prems [of 0] by simp
  have hs: "\<And>i. i < length ws \<Longrightarrow>
      window_outcome g p c b (length (sent @ [window_prompt c b w]) + i) (ws ! i) = Inr ((chunks \<circ> Suc) i)"
    using Cons.prems [of "Suc _"] by simp
  have "run_windows g p c b ws (sent @ [window_prompt c b w]) (full @ chunks 0) =
        ((sent @ [window_prompt c b w]) @ map (window_prompt c b) ws,
         Inr ((full @ chunks 0) @ concat (map (chunks \<circ> Suc) [0..<length ws])))"
    by (rule Cons.IH [OF hs])
  moreover have "concat (map chunks [0..<length (w # ws)]) =
        chunks 0 @ concat (map (chunks \<circ> Suc) [0..<length ws])"
    by (simp add: upt_conv_Cons map_Suc_upt [symmetric] del: upt_Suc)
  ultimately show ?case using h0 by simp
qed

lemma run_windows_failure:
  "j < length ws \<Longrightarrow>
   (\<And>i. i < j \<Longrightarrow> \<not> isl (window_outcome g p c b (length sent + i) (ws ! i))) \<Longrightarrow>
   window_outcome g p c b (length sent + j) (ws ! j) = Inl err \<Longrightarrow>
   run_windows g p c b ws sent full = (sent @ map (window_prompt c b) (take (Suc j) ws), Inl err)"
proof (induction ws arbitrary: sent full j)
  case Nil
  then show ?case by simp
next
  case (Cons w ws)
  show ?case
  proof (cases j)
    case 0
    with Cons.prems(3) show ?thesis by simp
  next
    case (Suc k)
    have "\<not> isl (window_outcome g p c b (length sent) w)"
      using Cons.prems(2) [of 0] Suc by simp
    then obtain chunk where h0: "window_outcome g p c b (length sent) w = Inr chunk"
      by (cases "window_outcome g p c b (length sent) w") auto
    have k: "k < length ws" using Cons.prems(1) Suc by simp
    have hs: "\<And>i. i < k \<Longrightarrow>
        \<not> isl (window_outcome g p c b (length (sent @ [window_prompt c b w]) + i) (ws ! i))"
      using Cons.prems(2) [of "Suc _"] Suc by simp
    have hk: "window_outcome g p c b (length (sent @ [window_prompt c b w]) + k) (ws ! k) = Inl err"
      using Cons.prems(3) Suc by simp
    have "run_windows g p c b ws (sent @ [window_prompt c b w]) (full @ chunk) =
          ((sent @ [window_prompt c b w]) @ map (window_prompt c b) (take (Suc k) ws), Inl err)"
      by (rule Cons.IH [OF k hs hk])
    then show ?thesis using h0 Suc by simp
  qed
qed

lemma generateItinerary_with_key:
  assumes "apiKey = Some k" and "k \<noteq> []"
  shows "generateItinerary apiKey g p c b days =
     (case run_windows g p c b (windows days 1) [] [] of
        (sent, Inr fullItinerary) \<Rightarrow> (sent, Inr fullItinerary)
      | (sent, Inl err) \<Rightarrow> (sent, Inr (fallback err)))"
  using assms by (simp add: generateItinerary_def windows_loop_run)

lemma generateItinerary_first_failure:
  assumes "apiKey = Some k" and "k \<noteq> []"
    and "j < length (windows days 1)"
    and "\<And>i. i < j \<Longrightarrow> \<not> isl (window_outcome g p c b i (windows days 1 ! i))"
    and "window_outcome g p c b j (windows days 1 ! j) = Inl err"
  shows "generateItinerary apiKey g p c b days =
           (map (window_prompt c b) (take (Suc j) (windows days 1)), Inr (fallback err))"
proof -
  have "run_windows g p c b (windows days 1) [] [] =
          ([] @ map (window_prompt c b) (take (Suc j) (windows days 1)), Inl err)"
    by (rule run_windows_failure) (use assms in simp_all)
  then show ?thesis
    using assms(1,2) by (simp add: generateItinerary_with_key)
qed

lemma generateItinerary_all_succeed:
  assumes "apiKey = Some k" and "k \<noteq> []"
    and "\<And>i. i < length (windows days 1) \<Longrightarrow>
           window_outcome g p c b i (windows days 1 ! i) = Inr (chunks i)"
  shows "generateItinerary apiKey g p c b days =
           (map (window_prompt c b) (windows days 1),
            Inr (concat (map chunks [0..<length (windows days 1)])))"
proof -
  have "run_windows g p c b (windows days 1) [] [] =
          ([] @ map (window_prompt c b) (windows days 1),
           Inr ([] @ concat (map chunks [0..<length (windows days 1)])))"
    by (rule run_windows_success) (use assms in simp_all)
  then show ?thesis
    using assms(1,2) by (simp add: generateItinerary_with_key)
qed

lemma generateItinerary_returns:
  assumes "apiKey = Some k" and "k \<noteq> []"
  shows "\<exists>sent plan. generateItinerary apiKey g p c b days = (sent, Inr plan)"
proof -
  obtain sent r where r: "run_windows g p c b (windows days 1) [] [] = (sent, r)"
    by (cases "run_windows g p c b (windows days 1) [] []")
  show ?thesis
    using assms r by (cases r) (simp_all add: generateItinerary_with_key)
qed

lemma fallback_accepted: "check_chunk start end (JArr (fallback err)) = Inr (fallback err)"
  by (simp add: check_chunk_def read_length_def validate_chunk_def fallback_def day_invalid_def
        place_invalid_def num_is_zero_def)

lemma windows_10: "windows 10 1 = [(1, 7), (8, 10)]"
  by (simp add: windows.simps CHUNK_SIZE_def)

lemma windows_8: "windows 8 1 = [(1, 7), (8, 8)]"
  by (simp add: windows.simps CHUNK_SIZE_def)

lemma windows_formula:
  "windows days start =
     map (\<lambda>i. (start + 7 * int i, min (start + 7 * int i + 6) days))
       [0..<nat ((days - start + 7) div 7)]"
proof (induction days start rule: windows.induct)
  case (1 days start)
  show ?case
  proof (cases "start \<le> days")
    case False
    then have "nat ((days - start + 7) div 7) = 0" by simp
    with False show ?thesis by (simp add: windows.simps)
  next
    case True
    have n: "nat ((days - start + 7) div 7) = Suc (nat ((days - (start + 7) + 7) div 7))"
      using True by (simp add: Suc_nat_eq_nat_zadd1) 
    have "windows days start = (start, min (start + 6) days) # windows days (start + 7)"
      using True by (subst windows.simps) (simp add: CHUNK_SIZE_def)
    also have "windows days (start + 7) =
        map (\<lambda>i. (start + 7 + 7 * int i, min (start + 7 + 7 * int i + 6) days))
          [0..<nat ((days - (start + 7) + 7) div 7)]"
      using "1.IH" [OF True] by (simp add: CHUNK_SIZE_def)
    finally show ?thesis
      unfolding n by (simp add: upt_conv_Cons map_Suc_upt [symmetric] algebra_simps del: upt_Suc)
  qed
qed

lemma run_windows_sent:
  "\<exists>n\<le>length ws. fst (run_windows g p c b ws sent full) = sent @ map (window_prompt c b) (take n ws)"
proof (induction ws arbitrary: sent full)
  case Nil
  then show ?case by simp
next
  case (Cons w ws)
  show ?case
  proof (cases "window_outcome g p c b (length sent) w")
    case (Inl ex)
    then have "fst (run_windows g p c b (w # ws) sent full) = sent @ map (window_prompt c b) (take 1 (w # ws))"
      by simp
    then show ?thesis by (intro exI [of _ 1]) simp
  next
    case (Inr chunk)
    obtain n where n: "n \<le> length ws"
      "fst (run_windows g p c b ws (sent @ [window_prompt c b w]) (full @ chunk)) =
         (sent @ [window_prompt c b w]) @ map (window_prompt c b) (take n ws)"
      using Cons.IH by blast
    then have "fst (run_windows g p c b (w # ws) sent full) = sent @ map (window_prompt c b) (take (Suc n) (w # ws))"
      using Inr by simp
    with n(1) show ?thesis by (intro exI [of _ "Suc n"]) simp
  qed
qed

lemma process_one_day: "process_response JSON_parse start end one_day_text = Inr [one_day]"
proof -
  have c: "clean_response one_day_text = one_day_text"
    unfolding one_day_text_def one_day_object_text_def by code_simp
  have p: "JSON_parse one_day_text = Inr (JArr [one_day])"
    unfolding one_day_text_def one_day_object_text_def one_day_def by code_simp
  have v: "validate_chunk start end (JArr [one_day]) = Inr [one_day]"
    by (simp add: validate_chunk_def one_day_def day_invalid_def place_invalid_def num_is_zero_def)
  show ?thesis
    by (simp add: process_response_def parse_chunk_def c p v check_chunk_def read_length_def)
qed

lemma process_garbage:
  "process_response JSON_parse 8 8 ''Sorry, I cannot help with that.'' =
     Inl (Error ''No valid JSON array found in response for days 8-8'')"
  by code_simp

lemma prompt_names_window: "sublist (window_sentence start end) (prompt city budget start end)"
  unfolding prompt_def by (rule sublist_appendI)

lemma generateItinerary_sent:
  assumes "apiKey = Some k" and "k \<noteq> []"
  shows "\<exists>n\<le>length (windows days 1).
           fst (generateItinerary apiKey g p c b days) = map (window_prompt c b) (take n (windows days 1))"
proof -
  obtain n where n: "n \<le> length (windows days 1)"
    "fst (run_windows g p c b (windows days 1) [] []) = [] @ map (window_prompt c b) (take n (windows days 1))"
    using run_windows_sent [of "windows days 1" g p c b "[]" "[]"] by blast
  have "fst (generateItinerary apiKey g p c b days) = fst (run_windows g p c b (windows days 1) [] [])"
    using assms by (simp add: generateItinerary_with_key split: prod.splits sum.splits)
  with n show ?thesis by auto
qed

text \<open>
  C2. When the API key is absent from the configuration (the variable is not set, or is the
  empty text), \<open>generateItinerary\<close> throws an \<open>Error\<close> whose message names the missing
  key, for every city, budget and number of days; no request is sent, and nothing, neither
  an empty list nor the fallback plan, is returned.
\<close>

theorem missing_api_key_throws:
  "apiKey = None \<or> apiKey = Some [] \<Longrightarrow>
   generateItinerary apiKey generateContent parse city budget days =
     ([], Inl (Error ''Gemini API key is missing. Please check your .env file.''))"
  by (simp add: generateItinerary_def)

theorem missing_api_key_throws_witness:
  "generateItinerary None (\<lambda>n p. Inr ''[]'') JSON_parse ''Kyoto'' ''900'' 5 =
     ([], Inl (Error ''Gemini API key is missing. Please check your .env file.''))"
  using missing_api_key_throws [of None "\<lambda>n p. Inr ''[]''" JSON_parse "''Kyoto''" "''900''" 5]
  by simp

text \<open>
  C1, as stated, fails: with no API key in the configuration \<open>generateItinerary\<close> throws
  to its caller (the guard of lines 9 to 12 stands before the \<open>try\<close>).
\<close>

theorem never_throws_counterexample:
  "snd (generateItinerary None (\<lambda>n p. Inr one_day_text) JSON_parse ''Kyoto'' ''900'' 1) =
     Inl (Error ''Gemini API key is missing. Please check your .env file.'')"
  by (simp add: generateItinerary_def)

text \<open>
  C1, amended. When the API key is configured, \<open>generateItinerary\<close> never throws to its
  caller: for every city, budget and number of days, every backend and every \<open>JSON.parse\<close>
  it returns a plan. When a window fails (its request, its parsing or its validation raises
  \<open>err\<close>, the windows before it having succeeded), the plan is the fallback: one synthetic
  day with a title and one stop, whose description is the fixed text followed by the message
  of \<open>err\<close> (so it is not empty and carries the reason), and which the checks of lines
  117 to 136 themselves accept. A response whose cleaned text \<open>JSON.parse\<close> rejects is such a
  failure: the regular expression finds nothing else to parse.
\<close>

theorem never_throws_given_key:
  assumes "apiKey = Some k" and "k \<noteq> []"
  shows "\<exists>sent plan. generateItinerary apiKey generateContent parse city budget days = (sent, Inr plan) \<and>
           (\<forall>j err. j < length (windows days 1) \<and>
               (\<forall>i<j. \<not> isl (window_outcome generateContent parse city budget i (windows days 1 ! i))) \<and>
               window_outcome generateContent parse city budget j (windows days 1 ! j) = Inl err \<longrightarrow>
               plan = fallback err \<and>
               (\<exists>day place. plan = [day] \<and> truthy (field day ''title'') \<and>
                  field day ''itinerary'' = Some (JArr [place]) \<and>
                  field place ''description'' =
                    Some (JStr (''Default location because AI parsing failed. Error: '' @ message err))) \<and>
               check_chunk start end (JArr plan) = Inr plan) \<and>
           (\<forall>j resp. j < length (windows days 1) \<and>
               (\<forall>i<j. \<not> isl (window_outcome generateContent parse city budget i (windows days 1 ! i))) \<and>
               generateContent j (window_prompt city budget (windows days 1 ! j)) = Inr resp \<and>
               isl (parse (clean_response resp)) \<longrightarrow>
               (\<exists>msg. plan = fallback (Error msg)))"
proof -
  obtain sent plan where r: "generateItinerary apiKey generateContent parse city budget days = (sent, Inr plan)"
    using generateItinerary_returns [OF assms] by blast
  have "plan = fallback err \<and>
        (\<exists>day place. plan = [day] \<and> truthy (field day ''title'') \<and>
           field day ''itinerary'' = Some (JArr [place]) \<and>
           field place ''description'' =
             Some (JStr (''Default location because AI parsing failed. Error: '' @ message err))) \<and>
        check_chunk start end (JArr plan) = Inr plan"
    if j: "j < length (windows days 1)"
      and ok: "\<forall>i<j. \<not> isl (window_outcome generateContent parse city budget i (windows days 1 ! i))"
      and bad: "window_outcome generateContent parse city budget j (windows days 1 ! j) = Inl err"
    for j err
  proof -
    have "generateItinerary apiKey generateContent parse city budget days =
            (map (window_prompt city budget) (take (Suc j) (windows days 1)), Inr (fallback err))"
      using assms j ok bad by (intro generateItinerary_first_failure) auto
    with r have p: "plan = fallback err" by simp
    have "\<exists>day place. fallback err = [day] \<and> truthy (field day ''title'') \<and>
           field day ''itinerary'' = Some (JArr [place]) \<and>
           field place ''description'' =
             Some (JStr (''Default location because AI parsing failed. Error: '' @ message err))"
      by (simp add: fallback_def field_def)
    with p show ?thesis by (simp add: fallback_accepted)
  qed
  note failure = this
  have "\<exists>msg. plan = fallback (Error msg)"
    if j: "j < length (windows days 1)"
      and ok: "\<forall>i<j. \<not> isl (window_outcome generateContent parse city budget i (windows days 1 ! i))"
      and resp: "generateContent j (window_prompt city budget (windows days 1 ! j)) = Inr resp"
      and inv: "isl (parse (clean_response resp))"
    for j resp
  proof -
    obtain s e where w: "windows days 1 ! j = (s, e)" by (cases "windows days 1 ! j")
    obtain msg where "process_response parse s e resp = Inl (Error msg)"
      using inv invalid_json_raises [of parse resp s e] by blast
    then have "window_outcome generateContent parse city budget j (windows days 1 ! j) = Inl (Error msg)"
      using resp w by (simp add: window_outcome_def window_prompt_def)
    with failure [OF j ok] show ?thesis by blast
  qed
  with r failure show ?thesis by blast
qed

theorem never_throws_given_key_witness:
  "snd (generateItinerary (Some ''key'') (\<lambda>n p. Inr ''Sorry, I cannot help with that.'') JSON_parse
          ''Kyoto'' ''900'' 8) =
     Inr (fallback (Error ''No valid JSON array found in response for days 1-7''))"
proof -
  let ?g = "\<lambda>(n::nat) (p::string). (Inr ''Sorry, I cannot help with that.'' :: exn + string)"
  have bad: "window_outcome ?g JSON_parse ''Kyoto'' ''900'' 0 (windows 8 1 ! 0) =
        Inl (Error ''No valid JSON array found in response for days 1-7'')"
    unfolding windows_8 by code_simp
  obtain sent plan where
    "generateItinerary (Some ''key'') ?g JSON_parse ''Kyoto'' ''900'' 8 = (sent, Inr plan)" and
    "\<forall>j err. j < length (windows 8 1) \<and>
       (\<forall>i<j. \<not> isl (window_outcome ?g JSON_parse ''Kyoto'' ''900'' i (windows 8 1 ! i))) \<and>
       window_outcome ?g JSON_parse ''Kyoto'' ''900'' j (windows 8 1 ! j) = Inl err \<longrightarrow>
       plan = fallback err \<and>
       (\<exists>day place. plan = [day] \<and> truthy (field day ''title'') \<and>
          field day ''itinerary'' = Some (JArr [place]) \<and>
          field place ''description'' =
            Some (JStr (''Default location because AI parsing failed. Error: '' @ message err))) \<and>
       check_chunk 1 7 (JArr plan) = Inr plan"
    using never_throws_given_key [of "Some ''key''" "''key''" ?g JSON_parse "''Kyoto''" "''900''" 8 1 7]
    by auto
  moreover have "(0::nat) < length (windows 8 1)" by (simp add: windows_8)
  ultimately show ?thesis using bad by fastforce
qed

text \<open>
  C3. Failure is all or nothing: when the window \<open>j\<close> raises \<open>err\<close> after the windows
  before it parsed and validated (giving the days \<open>chunks i\<close>), the value returned is
  exactly the fallback plan of \<open>err\<close>, a list of one day, the synthetic one, made from
  \<open>err\<close> alone; the days accumulated from the earlier windows are not carried over. (As everywhere the key is configured:
  without it no window is processed.)
\<close>

theorem all_or_nothing:
  assumes "apiKey = Some k" and "k \<noteq> []"
    and "j < length (windows days 1)"
    and "\<forall>i<j. window_outcome generateContent parse city budget i (windows days 1 ! i) = Inr (chunks i)"
    and "window_outcome generateContent parse city budget j (windows days 1 ! j) = Inl err"
  shows "snd (generateItinerary apiKey generateContent parse city budget days) = Inr (fallback err) \<and>
         (\<exists>day. fallback err = [day] \<and>
            field day ''title'' = Some (JStr ''Day 1: Default Plan (API Error)''))"
proof -
  have "generateItinerary apiKey generateContent parse city budget days =
          (map (window_prompt city budget) (take (Suc j) (windows days 1)), Inr (fallback err))"
    using assms by (intro generateItinerary_first_failure) auto
  then show ?thesis by (simp add: fallback_def field_def)
qed

theorem all_or_nothing_witness:
  "snd (generateItinerary (Some ''key'')
          (\<lambda>n p. if n = 0 then Inr one_day_text else Inr ''Sorry, I cannot help with that.'')
          JSON_parse ''Kyoto'' ''900'' 8) =
     Inr (fallback (Error ''No valid JSON array found in response for days 8-8'')) \<and>
   process_response JSON_parse 1 7 one_day_text = Inr [one_day] \<and>
   one_day \<notin> set (fallback (Error ''No valid JSON array found in response for days 8-8''))"
proof -
  let ?g = "\<lambda>(n::nat) (p::string). if n = 0 then Inr one_day_text
              else (Inr ''Sorry, I cannot help with that.'' :: exn + string)"
  have first: "\<forall>i<1. window_outcome ?g JSON_parse ''Kyoto'' ''900'' i (windows 8 1 ! i) =
                 Inr ((\<lambda>i. [one_day]) i)"
    by (simp add: windows_8 window_outcome_def process_one_day)
  have second: "window_outcome ?g JSON_parse ''Kyoto'' ''900'' 1 (windows 8 1 ! 1) =
        Inl (Error ''No valid JSON array found in response for days 8-8'')"
    by (simp add: windows_8 window_outcome_def process_garbage)
  have "(1::nat) < length (windows 8 1)" by (simp add: windows_8)
  from all_or_nothing [OF refl _ this first second, of "''key''"]
  show ?thesis by (simp add: process_one_day fallback_def one_day_def)
qed

text \<open>
  C4. Every violation is to raise a window-scoped error whose message names the offending
  index; the code misses the case of a \<open>null\<close> where a day or an entry is expected. The
  checks of lines 126 and 131 read a property of the day, or of the entry, before anything
  has established that it is an object. For the response \<open>[null]\<close> line 126
  throws the engine's \<open>TypeError\<close>, whose message names neither the index nor the window,
  where the sibling response \<open>[{}]\<close> raises the window-scoped error of line 127 that names
  index 0. The same happens for a \<open>null\<close> entry of an itinerary (line 131), and for the
  payload \<open>null\<close> line 117 throws before the test of line 120 is reached. In each case
  \<open>generateItinerary\<close> returns the fallback plan, built from that \<open>TypeError\<close>.
\<close>

theorem null_day_not_indexed:
  \<open>process_response JSON_parse 1 5 ''[null]'' =
     Inl (TypeError (''Cannot read properties of null (reading '' @ [CHR 0x27] @ ''title'' @ [CHR 0x27] @ '')'')) \<and>
   \<not> names_index (''Cannot read properties of null (reading '' @ [CHR 0x27] @ ''title'' @ [CHR 0x27] @ '')'') \<and>
   \<not> sublist ''1-5'' (''Cannot read properties of null (reading '' @ [CHR 0x27] @ ''title'' @ [CHR 0x27] @ '')'') \<and>
   process_response JSON_parse 1 5 ''[{}]'' =
     Inl (Error ''Invalid day structure at index 0 in chunk 1-5'') \<and>
   process_response JSON_parse 1 5 ''[{"title":"Day 1","itinerary":[null]}]'' =
     Inl (TypeError (''Cannot read properties of null (reading '' @ [CHR 0x27] @ ''name'' @ [CHR 0x27] @ '')'')) \<and>
   process_response JSON_parse 1 5 ''[{"title":"Day 1","itinerary":[{}]}]'' =
     Inl (Error ''Invalid place structure at place 0 in day 0 of chunk 1-5'') \<and>
   process_response JSON_parse 1 5 ''null'' =
     Inl (TypeError (''Cannot read properties of null (reading '' @ [CHR 0x27] @ ''length'' @ [CHR 0x27] @ '')'')) \<and>
   generateItinerary (Some ''key'') (\<lambda>n p. Inr ''[null]'') JSON_parse ''Kyoto'' ''900'' 5 =
     ([prompt ''Kyoto'' ''900'' 1 5],
      Inr (fallback (TypeError (''Cannot read properties of null (reading '' @ [CHR 0x27] @ ''title'' @
                                 [CHR 0x27] @ '')''))))\<close>
proof -
  have 1: "process_response JSON_parse 1 5 ''[null]'' =
     Inl (TypeError (''Cannot read properties of null (reading '' @ [CHR 0x27] @ ''title'' @ [CHR 0x27] @ '')''))"
    by code_simp
  have 2: "\<not> names_index (''Cannot read properties of null (reading '' @ [CHR 0x27] @ ''title'' @ [CHR 0x27] @ '')'')"
    by (simp add: names_index_def)
  have 3: "\<not> sublist ''1-5'' (''Cannot read properties of null (reading '' @ [CHR 0x27] @ ''title'' @ [CHR 0x27] @ '')'')"
    by code_simp
  have 4: "process_response JSON_parse 1 5 ''[{}]'' =
     Inl (Error ''Invalid day structure at index 0 in chunk 1-5'')"
    by code_simp
  have 5: \<open>process_response JSON_parse 1 5 ''[{"title":"Day 1","itinerary":[null]}]'' =
     Inl (TypeError (''Cannot read properties of null (reading '' @ [CHR 0x27] @ ''name'' @ [CHR 0x27] @ '')''))\<close>
    by code_simp
  have 6: \<open>process_response JSON_parse 1 5 ''[{"title":"Day 1","itinerary":[{}]}]'' =
     Inl (Error ''Invalid place structure at place 0 in day 0 of chunk 1-5'')\<close>
    by code_simp
  have 7: "process_response JSON_parse 1 5 ''null'' =
     Inl (TypeError (''Cannot read properties of null (reading '' @ [CHR 0x27] @ ''length'' @ [CHR 0x27] @ '')''))"
    by code_simp
  have w: "windows 5 1 = [(1, 5)]"
    by (simp add: windows.simps CHUNK_SIZE_def)
  have 8: "generateItinerary (Some ''key'') (\<lambda>n p. Inr ''[null]'') JSON_parse ''Kyoto'' ''900'' 5 =
     ([prompt ''Kyoto'' ''900'' 1 5],
      Inr (fallback (TypeError (''Cannot read properties of null (reading '' @ [CHR 0x27] @ ''title'' @
                                 [CHR 0x27] @ '')''))))"
    by (simp add: generateItinerary_with_key w window_outcome_def window_prompt_def 1)
  from 1 2 3 4 5 6 7 8 show ?thesis by (intro conjI)
qed

text \<open>
  C9. When every window parses and validates, \<open>generateItinerary\<close> returns the windows'
  days, concatenated in order and unchanged, whatever their number: a number of days that
  differs from the one asked for is only logged (lines 144 to 146), and the result is
  neither padded nor cut nor replaced by the fallback. (The key is configured: without it
  no window is processed.)
\<close>

theorem mismatch_not_corrected:
  assumes "apiKey = Some k" and "k \<noteq> []"
    and "\<forall>i<length (windows days 1).
           window_outcome generateContent parse city budget i (windows days 1 ! i) = Inr (chunks i)"
  shows "snd (generateItinerary apiKey generateContent parse city budget days) =
           Inr (concat (map chunks [0..<length (windows days 1)]))"
proof -
  have "generateItinerary apiKey generateContent parse city budget days =
          (map (window_prompt city budget) (windows days 1),
           Inr (concat (map chunks [0..<length (windows days 1)])))"
    using assms by (intro generateItinerary_all_succeed) auto
  then show ?thesis by simp
qed

theorem mismatch_not_corrected_witness:
  "snd (generateItinerary (Some ''key'') (\<lambda>n p. Inr one_day_text) JSON_parse ''Kyoto'' ''900'' 10) =
     Inr [one_day, one_day] \<and>
   int (length [one_day, one_day]) \<noteq> 10"
proof -
  let ?g = "\<lambda>(n::nat) (p::string). (Inr one_day_text :: exn + string)"
  have "\<forall>i<length (windows 10 1).
          window_outcome ?g JSON_parse ''Kyoto'' ''900'' i (windows 10 1 ! i) = Inr ((\<lambda>i. [one_day]) i)"
  proof (intro allI impI)
    fix i assume "i < length (windows 10 1)"
    then have "i = 0 \<or> i = 1" by (auto simp: windows_10)
    then show "window_outcome ?g JSON_parse ''Kyoto'' ''900'' i (windows 10 1 ! i) = Inr ((\<lambda>i. [one_day]) i)"
      by (auto simp: windows_10 window_outcome_def process_one_day)
  qed
  from mismatch_not_corrected [OF refl _ this, of "''key''"]
  show ?thesis by (simp add: windows_10)
qed

text \<open>
  C6, as stated, fails: it is not for every run of 10 days that two requests are sent. When
  the first request is rejected the loop is left at once, and one request was sent.
\<close>

theorem two_calls_counterexample:
  "fst (generateItinerary (Some ''key'') (\<lambda>n p. Inl (Error ''503 Service Unavailable''))
          JSON_parse ''Kyoto'' ''900'' 10) = [prompt ''Kyoto'' ''900'' 1 7]"
  by (simp add: generateItinerary_with_key windows_10 window_outcome_def window_prompt_def)

text \<open>
  C6, amended. The windows are \<open>1..7\<close>, \<open>8..14\<close>, ... of 7 days each, the last one ending
  with the last day. With the key configured, one request is sent per window, in order,
  until a window fails: when window \<open>j\<close> is the first to fail (its request, its parsing or
  its validation), the requests sent are exactly the prompts of the windows up to and
  including \<open>j\<close>; when no window fails they are the prompts of all windows. For 10 days,
  when the first window succeeds exactly two requests are sent, the prompt of the days 1 to
  7 and the prompt of the days 8 to 10, each naming its window in its second sentence; when
  the first window fails only the first is sent.
\<close>

theorem one_call_per_window:
  assumes "apiKey = Some k" and "k \<noteq> []"
  shows "windows days 1 =
           map (\<lambda>i. (1 + 7 * int i, min (7 + 7 * int i) days)) [0..<nat ((days + 6) div 7)] \<and>
         (\<forall>j<length (windows days 1).
            (\<forall>i<j. \<not> isl (window_outcome generateContent parse city budget i (windows days 1 ! i))) \<and>
            isl (window_outcome generateContent parse city budget j (windows days 1 ! j)) \<longrightarrow>
            fst (generateItinerary apiKey generateContent parse city budget days) =
              map (window_prompt city budget) (take (Suc j) (windows days 1))) \<and>
         ((\<forall>i<length (windows days 1).
              \<not> isl (window_outcome generateContent parse city budget i (windows days 1 ! i))) \<longrightarrow>
            fst (generateItinerary apiKey generateContent parse city budget days) =
              map (window_prompt city budget) (windows days 1)) \<and>
         (\<not> isl (window_outcome generateContent parse city budget 0 (1, 7)) \<longrightarrow>
            fst (generateItinerary apiKey generateContent parse city budget 10) =
              [prompt city budget 1 7, prompt city budget 8 10]) \<and>
         (isl (window_outcome generateContent parse city budget 0 (1, 7)) \<longrightarrow>
            fst (generateItinerary apiKey generateContent parse city budget 10) =
              [prompt city budget 1 7]) \<and>
         sublist (window_sentence 1 7) (prompt city budget 1 7) \<and>
         sublist (window_sentence 8 10) (prompt city budget 8 10)"
proof -
  have a: "fst (generateItinerary apiKey generateContent parse city budget days) =
              map (window_prompt city budget) (take (Suc j) (windows days 1))"
    if j: "j < length (windows days 1)"
      and ok: "\<forall>i<j. \<not> isl (window_outcome generateContent parse city budget i (windows days 1 ! i))"
      and bad: "isl (window_outcome generateContent parse city budget j (windows days 1 ! j))"
    for j
  proof -
    obtain err where e: "window_outcome generateContent parse city budget j (windows days 1 ! j) = Inl err"
      using bad by (cases "window_outcome generateContent parse city budget j (windows days 1 ! j)") auto
    have "generateItinerary apiKey generateContent parse city budget days =
           (map (window_prompt city budget) (take (Suc j) (windows days 1)), Inr (fallback err))"
      using assms j _ e by (rule generateItinerary_first_failure) (use ok in simp)
    then show ?thesis by simp
  qed
  have b: "fst (generateItinerary apiKey generateContent parse city budget days) =
              map (window_prompt city budget) (windows days 1)"
    if h: "\<forall>i<length (windows days 1).
          \<not> isl (window_outcome generateContent parse city budget i (windows days 1 ! i))"
  proof -
    have "window_outcome generateContent parse city budget i (windows days 1 ! i) =
            Inr (projr (window_outcome generateContent parse city budget i (windows days 1 ! i)))"
      if "i < length (windows days 1)" for i
      using that h by simp
    then have "generateItinerary apiKey generateContent parse city budget days =
          (map (window_prompt city budget) (windows days 1),
           Inr (concat (map (\<lambda>i. projr (window_outcome generateContent parse city budget i (windows days 1 ! i)))
                  [0..<length (windows days 1)])))"
      using assms by (intro generateItinerary_all_succeed) auto
    then show ?thesis by simp
  qed
  have c: "windows days 1 =
           map (\<lambda>i. (1 + 7 * int i, min (7 + 7 * int i) days)) [0..<nat ((days + 6) div 7)]"
    using windows_formula [of days 1] by (simp add: algebra_simps)
  have d: "fst (generateItinerary apiKey generateContent parse city budget 10) =
              [prompt city budget 1 7, prompt city budget 8 10]"
    if h: "\<not> isl (window_outcome generateContent parse city budget 0 (1, 7))"
  proof -
    obtain chunk where "window_outcome generateContent parse city budget 0 (1, 7) = Inr chunk"
      using h by (cases "window_outcome generateContent parse city budget 0 (1, 7)") auto
    then show ?thesis
      using assms
      by (cases "window_outcome generateContent parse city budget 1 (8, 10)")
         (simp_all add: generateItinerary_with_key windows_10 window_prompt_def)
  qed
  have e: "fst (generateItinerary apiKey generateContent parse city budget 10) = [prompt city budget 1 7]"
    if h: "isl (window_outcome generateContent parse city budget 0 (1, 7))"
  proof -
    obtain err where "window_outcome generateContent parse city budget 0 (1, 7) = Inl err"
      using h by (cases "window_outcome generateContent parse city budget 0 (1, 7)") auto
    then show ?thesis
      using assms by (simp add: generateItinerary_with_key windows_10 window_prompt_def)
  qed
  show ?thesis
    apply (intro conjI allI impI)
    subgoal by (rule c)
    subgoal for j using a [of j] by blast
    subgoal by (rule b)
    subgoal by (rule d)
    subgoal by (rule e)
    subgoal by (rule prompt_names_window)
    subgoal by (rule prompt_names_window)
    done
qed

theorem one_call_per_window_witness:
  "fst (generateItinerary (Some ''key'') (\<lambda>n p. Inr one_day_text) JSON_parse ''Kyoto'' ''900'' 10) =
     [prompt ''Kyoto'' ''900'' 1 7, prompt ''Kyoto'' ''900'' 8 10] \<and>
   fst (generateItinerary (Some ''key'')
          (\<lambda>n p. if n = 0 then Inr one_day_text else Inr ''Sorry, I cannot help with that.'')
          JSON_parse ''Kyoto'' ''900'' 8) =
     [prompt ''Kyoto'' ''900'' 1 7, prompt ''Kyoto'' ''900'' 8 8] \<and>
   fst (generateItinerary (Some ''key'') (\<lambda>n p. Inr ''Sorry, I cannot help with that.'')
          JSON_parse ''Kyoto'' ''900'' 10) =
     [prompt ''Kyoto'' ''900'' 1 7]"
proof -
  let ?g = "\<lambda>(n::nat) (p::string). (Inr one_day_text :: exn + string)"
  let ?h = "\<lambda>(n::nat) (p::string). (Inr ''Sorry, I cannot help with that.'' :: exn + string)"
  have 1: "\<not> isl (window_outcome ?g JSON_parse ''Kyoto'' ''900'' 0 (1, 7))"
    by (simp add: window_outcome_def process_one_day)
  have g: "process_response JSON_parse 1 7 ''Sorry, I cannot help with that.'' =
     Inl (Error ''No valid JSON array found in response for days 1-7'')"
    by code_simp
  have 2: "isl (window_outcome ?h JSON_parse ''Kyoto'' ''900'' 0 (1, 7))"
    by (simp add: window_outcome_def g)
  from one_call_per_window [of "Some ''key''" "''key''" 10 ?g JSON_parse "''Kyoto''" "''900''"] 1
  have a: "fst (generateItinerary (Some ''key'') ?g JSON_parse ''Kyoto'' ''900'' 10) =
     [prompt ''Kyoto'' ''900'' 1 7, prompt ''Kyoto'' ''900'' 8 10]"
    by simp
  from one_call_per_window [of "Some ''key''" "''key''" 10 ?h JSON_parse "''Kyoto''" "''900''"] 2
  have b: "fst (generateItinerary (Some ''key'') ?h JSON_parse ''Kyoto'' ''900'' 10) = [prompt ''Kyoto'' ''900'' 1 7]"
    by simp
  let ?m = "\<lambda>(n::nat) (p::string). if n = 0 then (Inr one_day_text :: exn + string) else Inr ''Sorry, I cannot help with that.''"
  have 3: "\<not> isl (window_outcome ?m JSON_parse ''Kyoto'' ''900'' 0 (1, 7))"
    by (simp add: window_outcome_def process_one_day)
  have 4: "isl (window_outcome ?m JSON_parse ''Kyoto'' ''900'' 1 (8, 8))"
    by (simp add: window_outcome_def process_garbage)
  have "1 < length (windows 8 1) \<and>
      (\<forall>i<1. \<not> isl (window_outcome ?m JSON_parse ''Kyoto'' ''900'' i (windows 8 1 ! i))) \<and>
      isl (window_outcome ?m JSON_parse ''Kyoto'' ''900'' 1 (windows 8 1 ! 1))"
    using 3 4 by (simp add: windows_8)
  with one_call_per_window [of "Some ''key''" "''key''" 8 ?m JSON_parse "''Kyoto''" "''900''"]
  have "fst (generateItinerary (Some ''key'') ?m JSON_parse ''Kyoto'' ''900'' 8) =
      map (window_prompt ''Kyoto'' ''900'') (take (Suc 1) (windows 8 1))"
    by blast
  then have c: "fst (generateItinerary (Some ''key'') ?m JSON_parse ''Kyoto'' ''900'' 8) =
     [prompt ''Kyoto'' ''900'' 1 7, prompt ''Kyoto'' ''900'' 8 8]"
    by (simp add: windows_8 window_prompt_def)
  from a c b show ?thesis by (intro conjI)
qed

section \<open>Properties of the image resolver\<close>

lemma query_fallback_nonempty: "query_fallback query \<noteq> []"
  by (simp add: query_fallback_def)

lemma placeholder_nonempty: "placeholder \<noteq> []"
  by (simp add: placeholder_def)

lemma getPlaceImage_returns:
  "getPlaceImage positive fetch accessKey query =
     ([search_url accessKey query],
      Inr (case search_first positive fetch accessKey query of
             Inl error \<Rightarrow> Some (JStr placeholder)
           | Inr url \<Rightarrow> url))"
  by (simp add: getPlaceImage_def split: sum.splits)

lemma getOrFetch_hit:
  assumes "cache key = Some current" and "truthy (Some current)"
  shows "getOrFetch positive fetch accessKey cache key query = (current, cache, [])"
  using assms by (simp add: getOrFetch_def)

lemma getOrFetch_miss:
  assumes "\<not> truthy (cache key)"
    and "getPlaceImage positive fetch accessKey query = (fetched, Inr v)"
  shows "getOrFetch positive fetch accessKey cache key query =
           (case v of
              Some url \<Rightarrow>
                if truthy v then (url, cache(key \<mapsto> url), fetched)
                else (JStr (query_fallback query), cache(key \<mapsto> JStr (query_fallback query)), fetched)
            | None \<Rightarrow>
                (JStr (query_fallback query), cache(key \<mapsto> JStr (query_fallback query)), fetched))"
proof -
  have "(case cache key of Some current \<Rightarrow> if truthy (Some current) then Some current else None
                         | None \<Rightarrow> None) = None"
    using assms(1) by (cases "cache key") simp_all
  then show ?thesis
    using assms(2) by (cases v) (simp_all add: getOrFetch_def)
qed

lemma getOrFetch_caches:
  assumes "getOrFetch positive fetch accessKey cache key query = (url, cache', fetched)"
  shows "cache' key = Some url \<and> truthy (Some url)"
proof (cases "truthy (cache key)")
  case True
  then obtain current where c: "cache key = Some current" "truthy (Some current)"
    by (cases "cache key") simp_all
  have "getOrFetch positive fetch accessKey cache key query = (current, cache, [])"
    using c by (rule getOrFetch_hit)
  with assms c show ?thesis by simp
next
  case False
  have g: "getPlaceImage positive fetch accessKey query =
     ([search_url accessKey query],
      Inr (case search_first positive fetch accessKey query of
             Inl error \<Rightarrow> Some (JStr placeholder)
           | Inr url \<Rightarrow> url))"
    by (rule getPlaceImage_returns)
  define v where "v = (case search_first positive fetch accessKey query of
                         Inl error \<Rightarrow> Some (JStr placeholder) | Inr url \<Rightarrow> url)"
  have "getOrFetch positive fetch accessKey cache key query =
           (case v of
              Some url \<Rightarrow>
                if truthy v then (url, cache(key \<mapsto> url), [search_url accessKey query])
                else (JStr (query_fallback query), cache(key \<mapsto> JStr (query_fallback query)),
                      [search_url accessKey query])
            | None \<Rightarrow>
                (JStr (query_fallback query), cache(key \<mapsto> JStr (query_fallback query)),
                 [search_url accessKey query]))"
    using False g unfolding v_def by (rule getOrFetch_miss)
  with assms show ?thesis
    by (cases v; cases "truthy v") (auto simp: query_fallback_nonempty)
qed

lemma search_first_no_photo:
  assumes "no_photo (fetch (search_url accessKey query))"
  shows "search_first positive fetch accessKey query = Inr (Some (JStr placeholder)) \<or>
         isl (search_first positive fetch accessKey query)"
proof (cases "fetch (search_url accessKey query)")
  case None
  then show ?thesis by (simp add: search_first_def)
next
  case (Some res)
  show ?thesis
  proof (cases "ok res")
    case False
    with Some show ?thesis by (simp add: search_first_def)
  next
    case True
    show ?thesis
    proof (cases "json_body res")
      case None
      with Some True show ?thesis by (simp add: search_first_def)
    next
      case (Some data)
      with assms \<open>fetch _ = Some res\<close> True have f: "field data ''results'' = Some (JArr [])"
        by (simp add: no_photo_def)
      then obtain kvs where d: "data = JObj kvs" "map_of kvs ''results'' = Some (JArr [])"
        by (cases data) (simp_all add: field_def)
      with Some True \<open>fetch _ = Some res\<close> show ?thesis
        by (simp add: search_first_def num_is_zero_def)
    qed
  qed
qed


text \<open>
  C7. After a call of \<open>getOrFetch\<close> with a key has completed, a second call with the same
  key, whatever its query and whatever the backend would answer, returns the same URL,
  leaves the cache as it is and fetches nothing.
\<close>

theorem second_call_cached:
  assumes "getOrFetch positive fetch accessKey cache key query = (url, cache', fetched)"
  shows "getOrFetch positive' fetch' accessKey' cache' key query' = (url, cache', [])"
proof -
  have "cache' key = Some url \<and> truthy (Some url)" using assms by (rule getOrFetch_caches)
  then show ?thesis by (simp add: getOrFetch_def)
qed

theorem second_call_cached_witness:
  "getOrFetch (\<lambda>v. Inr False) (reply_with kinkakuji_reply) (Some ''key'') Map.empty ''kinkaku-ji'' ''Kinkaku-ji'' =
     (JStr ''https://images.unsplash.com/photo-1?w=1080'',
      Map.empty(''kinkaku-ji'' \<mapsto> JStr ''https://images.unsplash.com/photo-1?w=1080''),
      [search_url (Some ''key'') ''Kinkaku-ji'']) \<and>
   getOrFetch (\<lambda>v. Inr False) (\<lambda>u. None) None
     (Map.empty(''kinkaku-ji'' \<mapsto> JStr ''https://images.unsplash.com/photo-1?w=1080''))
     ''kinkaku-ji'' ''Golden Pavilion'' =
     (JStr ''https://images.unsplash.com/photo-1?w=1080'',
      Map.empty(''kinkaku-ji'' \<mapsto> JStr ''https://images.unsplash.com/photo-1?w=1080''), [])"
proof -
  have first: "getOrFetch (\<lambda>v. Inr False) (reply_with kinkakuji_reply) (Some ''key'') Map.empty ''kinkaku-ji'' ''Kinkaku-ji'' =
     (JStr ''https://images.unsplash.com/photo-1?w=1080'',
      Map.empty(''kinkaku-ji'' \<mapsto> JStr ''https://images.unsplash.com/photo-1?w=1080''),
      [search_url (Some ''key'') ''Kinkaku-ji''])"
    by (simp add: getOrFetch_def getPlaceImage_def search_first_def first_regular_def reply_with_def
          kinkakuji_reply_def num_is_zero_def)
  from second_call_cached [OF first, of "\<lambda>v. Inr False" "\<lambda>u. None" None "''Golden Pavilion''"] first
  show ?thesis by simp
qed

text \<open>
  C8, as stated, fails: when the search brings no result the URL returned and cached is the
  fixed placeholder of \<open>getPlaceImage\<close>, which does not hold the encoded query.
\<close>

theorem query_placeholder_counterexample:
  "getOrFetch (\<lambda>v. Inr False) (reply_with no_results_reply) (Some ''key'') Map.empty ''kinkaku-ji'' ''Kinkaku-ji'' =
     (JStr ''https://via.placeholder.com/600x400?text=No+Image'',
      Map.empty(''kinkaku-ji'' \<mapsto> JStr ''https://via.placeholder.com/600x400?text=No+Image''),
      [search_url (Some ''key'') ''Kinkaku-ji'']) \<and>
   encodeURIComponent ''Kinkaku-ji'' = ''Kinkaku-ji'' \<and>
   \<not> sublist ''Kinkaku-ji'' ''https://via.placeholder.com/600x400?text=No+Image''"
proof -
  have "\<not> sublist ''Kinkaku-ji'' ''https://via.placeholder.com/600x400?text=No+Image''"
    by code_simp
  moreover have "encodeURIComponent ''Kinkaku-ji'' = ''Kinkaku-ji''"
    by code_simp
  ultimately show ?thesis
    by (simp add: getOrFetch_def getPlaceImage_def search_first_def reply_with_def no_results_reply_def
          placeholder_def num_is_zero_def)
qed

text \<open>
  C8, amended. When the key is not cached (there is no entry, or a falsy one) and the
  request brings no photo (it is rejected, the response is not \<open>ok\<close>, its body cannot be
  read, or there are zero results), the resolver returns the fixed placeholder
  \<open>https://via.placeholder.com/600x400?text=No+Image\<close>, the same for every query, caches it
  under the key, and has sent one request.
\<close>

theorem fixed_placeholder:
  assumes "\<not> truthy (cache key)"
    and "no_photo (fetch (search_url accessKey query))"
  shows "getOrFetch positive fetch accessKey cache key query =
           (JStr placeholder, cache(key \<mapsto> JStr placeholder), [search_url accessKey query]) \<and>
         placeholder = ''https://via.placeholder.com/600x400?text=No+Image''"
proof -
  have "search_first positive fetch accessKey query = Inr (Some (JStr placeholder)) \<or>
        isl (search_first positive fetch accessKey query)"
    using assms(2) by (rule search_first_no_photo)
  then have "getPlaceImage positive fetch accessKey query =
      ([search_url accessKey query], Inr (Some (JStr placeholder)))"
    by (cases "search_first positive fetch accessKey query") (auto simp: getPlaceImage_def)
  with assms(1) have "getOrFetch positive fetch accessKey cache key query =
           (case Some (JStr placeholder) of
              Some url \<Rightarrow>
                if truthy (Some (JStr placeholder))
                then (url, cache(key \<mapsto> url), [search_url accessKey query])
                else (JStr (query_fallback query), cache(key \<mapsto> JStr (query_fallback query)),
                      [search_url accessKey query])
            | None \<Rightarrow>
                (JStr (query_fallback query), cache(key \<mapsto> JStr (query_fallback query)),
                 [search_url accessKey query]))"
    by (rule getOrFetch_miss)
  then have "getOrFetch positive fetch accessKey cache key query =
           (JStr placeholder, cache(key \<mapsto> JStr placeholder), [search_url accessKey query])"
    by (simp add: placeholder_nonempty)
  moreover have "placeholder = ''https://via.placeholder.com/600x400?text=No+Image''"
    by (simp add: placeholder_def)
  ultimately show ?thesis by (intro conjI)
qed

theorem fixed_placeholder_witness:
  "getOrFetch (\<lambda>v. Inr False) (reply_with no_results_reply) (Some ''key'') Map.empty ''kinkaku-ji'' ''Kinkaku-ji'' =
     (JStr placeholder, Map.empty(''kinkaku-ji'' \<mapsto> JStr placeholder),
      [search_url (Some ''key'') ''Kinkaku-ji'']) \<and>
   getOrFetch (\<lambda>v. Inr False) (\<lambda>u. None) (Some ''key'') Map.empty ''gion'' ''Gion'' =
     (JStr placeholder, Map.empty(''gion'' \<mapsto> JStr placeholder), [search_url (Some ''key'') ''Gion'']) \<and>
   getOrFetch (\<lambda>v. Inr False) (\<lambda>u. Some \<lparr>ok = False, json_body = None\<rparr>) None Map.empty ''gion'' ''Gion'' =
     (JStr placeholder, Map.empty(''gion'' \<mapsto> JStr placeholder), [search_url None ''Gion''])"
proof -
  have 1: "no_photo (reply_with no_results_reply (search_url (Some ''key'') ''Kinkaku-ji''))"
    by (simp add: no_photo_def reply_with_def no_results_reply_def field_def)
  have 2: "no_photo ((\<lambda>u. None) (search_url (Some ''key'') ''Gion''))"
    by (simp add: no_photo_def)
  have 3: "no_photo ((\<lambda>u. Some \<lparr>ok = False, json_body = None\<rparr>) (search_url None ''Gion''))"
    by (simp add: no_photo_def)
  have m: "\<not> truthy ((Map.empty :: string \<rightharpoonup> json) k)" for k by simp
  from fixed_placeholder [of Map.empty "''kinkaku-ji''" "reply_with no_results_reply" "Some ''key''" "''Kinkaku-ji''"
        "\<lambda>v. Inr False", OF m 1]
    fixed_placeholder [of Map.empty "''gion''" "\<lambda>u. None" "Some ''key''" "''Gion''" "\<lambda>v. Inr False", OF m 2]
    fixed_placeholder [of Map.empty "''gion''" "\<lambda>u. Some \<lparr>ok = False, json_body = None\<rparr>" None "''Gion''"
        "\<lambda>v. Inr False", OF m 3]
  show ?thesis by (intro conjI) (rule conjunct1, assumption)+
qed




end
